theory Spec2Isabelle
  imports Main "HOL-Library.Multiset" "HOL-Library.Monad_Syntax"
begin

section \<open>Data model\<close>

text \<open>
  The rows of the remote table \<open>people_counter\<close> as the client receives them
  (interface \<open>TimeSeriesData\<close>): an identifier, the creation time as a string and the
  people count. The count is a JavaScript number that holds a whole number; it is modelled
  as an unbounded integer.
  Field names carry a suffix where the source's name is taken in HOL.
\<close>

record TimeSeriesData =
  id_d :: string
  created_at :: string
  people_count :: int

text \<open>
  A JavaScript \<open>Date\<close> holds a time value, the milliseconds since the epoch, or it is
  the Invalid Date, whose time value is NaN. The language keeps a time value within
  8.64e15 milliseconds of the epoch (\<open>TimeClip\<close>): a date beyond that does not exist,
  and \<open>is_valid\<close> says of a value of the model that it is a date with a time value.
\<close>

datatype Date = TimeValue int | InvalidDate

fun is_valid :: "Date \<Rightarrow> bool" where
  "is_valid (TimeValue t) = (\<bar>t\<bar> \<le> 8640000000000000)"
| "is_valid InvalidDate = False"

text \<open>A JavaScript number that is an integer, or NaN (\<open>None\<close>).\<close>

type_synonym number = "int option"

fun getTime :: "Date \<Rightarrow> number" where
  "getTime (TimeValue t) = Some t"
| "getTime InvalidDate = None"

text \<open>Subtraction of numbers: NaN when one operand is NaN.\<close>

fun minus_number :: "number \<Rightarrow> number \<Rightarrow> number" where
  "minus_number (Some a) (Some b) = Some (a - b)"
| "minus_number _ _ = None"

text \<open>The display point of the chart and the table (interface \<open>ChartData\<close>).\<close>

record ChartData =
  id_c :: string
  time :: string
  value_c :: int
  timestamp :: Date

section \<open>\<open>Date.prototype.toISOString\<close> and its inverse\<close>

text \<open>
  The export calls \<open>toISOString\<close> on every timestamp. The method is the language's:
  it reads the calendar fields of the UTC time off the time value with the arithmetic
  below and prints them as \<open>YYYY-MM-DDTHH:mm:ss.sssZ\<close>, the year with a sign and six
  digits when it is not within 0 to 9999. Division rounds down and the remainder is not
  negative, as \<open>div\<close> and \<open>mod\<close> on the integers do.
\<close>

definition msPerDay :: int where
  "msPerDay = 86400000"

definition Day :: "int \<Rightarrow> int" where
  "Day t = t div msPerDay"

definition DaysInYear :: "int \<Rightarrow> int" where
  "DaysInYear y =
     (if y mod 4 \<noteq> 0 then 365 else if y mod 100 \<noteq> 0 then 366
      else if y mod 400 \<noteq> 0 then 365 else 366)"

definition DayFromYear :: "int \<Rightarrow> int" where
  "DayFromYear y =
     365 * (y - 1970) + (y - 1969) div 4 - (y - 1901) div 100 + (y - 1601) div 400"

text \<open>
  The year of a day is the one year \<open>y\<close> with
  \<open>DayFromYear y \<le> d < DayFromYear (y + 1)\<close>. It is computed from the position of
  the day in the cycle of 400 years (146097 days) that starts with 1601: the century in
  the cycle, the group of four years in the century and the year in the group.
\<close>

definition YearFromDay :: "int \<Rightarrow> int" where
  "YearFromDay d =
     (let n = d + 134774;
          q = n div 146097; r = n mod 146097;
          c = min 3 (r div 36524); r1 = r - c * 36524;
          f = r1 div 1461; r2 = r1 - f * 1461;
          e = min 3 (r2 div 365)
      in 1601 + 400 * q + 100 * c + 4 * f + e)"

definition YearFromTime :: "int \<Rightarrow> int" where
  "YearFromTime t = YearFromDay (Day t)"

definition InLeapYear :: "int \<Rightarrow> int" where
  "InLeapYear t = (if DaysInYear (YearFromTime t) = 366 then 1 else 0)"

definition DayWithinYear :: "int \<Rightarrow> int" where
  "DayWithinYear t = Day t - DayFromYear (YearFromTime t)"

definition MonthFromTime :: "int \<Rightarrow> int" where
  "MonthFromTime t =
     (let d = DayWithinYear t; l = InLeapYear t
      in if d < 31 then 0
         else if d < 59 + l then 1
         else if d < 90 + l then 2
         else if d < 120 + l then 3
         else if d < 151 + l then 4
         else if d < 181 + l then 5
         else if d < 212 + l then 6
         else if d < 243 + l then 7
         else if d < 273 + l then 8
         else if d < 304 + l then 9
         else if d < 334 + l then 10
         else 11)"

text \<open>The day of the year on which month \<open>m\<close> (from 0) starts; \<open>l\<close> is 1 in a leap year.\<close>

definition month_start :: "int \<Rightarrow> int \<Rightarrow> int" where
  "month_start l m =
     (if m = 0 then 0
      else if m = 1 then 31
      else if m = 2 then 59 + l
      else if m = 3 then 90 + l
      else if m = 4 then 120 + l
      else if m = 5 then 151 + l
      else if m = 6 then 181 + l
      else if m = 7 then 212 + l
      else if m = 8 then 243 + l
      else if m = 9 then 273 + l
      else if m = 10 then 304 + l
      else 334 + l)"

definition DateFromTime :: "int \<Rightarrow> int" where
  "DateFromTime t = DayWithinYear t - month_start (InLeapYear t) (MonthFromTime t) + 1"

definition HourFromTime :: "int \<Rightarrow> int" where
  "HourFromTime t = (t div 3600000) mod 24"

definition MinFromTime :: "int \<Rightarrow> int" where
  "MinFromTime t = (t div 60000) mod 60"

definition SecFromTime :: "int \<Rightarrow> int" where
  "SecFromTime t = (t div 1000) mod 60"

definition msFromTime :: "int \<Rightarrow> int" where
  "msFromTime t = t mod 1000"

text \<open>The way back from the fields to the time value.\<close>

definition MakeTime :: "int \<Rightarrow> int \<Rightarrow> int \<Rightarrow> int \<Rightarrow> int" where
  "MakeTime h m s ms = h * 3600000 + m * 60000 + s * 1000 + ms"

definition MakeDay :: "int \<Rightarrow> int \<Rightarrow> int \<Rightarrow> int" where
  "MakeDay y m dt =
     DayFromYear y + month_start (if DaysInYear y = 366 then 1 else 0) m + dt - 1"

definition MakeDate :: "int \<Rightarrow> int \<Rightarrow> int" where
  "MakeDate day tm = day * msPerDay + tm"

text \<open>Decimal digits: \<open>pad k n\<close> is \<open>n\<close> in \<open>k\<close> digits, with leading zeros.\<close>

definition digit_char :: "nat \<Rightarrow> char" where
  "digit_char n = ''0123456789'' ! n"

fun pad :: "nat \<Rightarrow> nat \<Rightarrow> string" where
  "pad 0 n = []"
| "pad (Suc k) n = pad k (n div 10) @ [digit_char (n mod 10)]"

definition year_string :: "int \<Rightarrow> string" where
  "year_string y =
     (if 0 \<le> y \<and> y \<le> 9999 then pad 4 (nat y)
      else (if y < 0 then ''-'' else ''+'') @ pad 6 (nat \<bar>y\<bar>))"

definition iso_string :: "int \<Rightarrow> string" where
  "iso_string t =
     year_string (YearFromTime t) @ ''-'' @ pad 2 (nat (MonthFromTime t + 1)) @ ''-''
     @ pad 2 (nat (DateFromTime t)) @ ''T'' @ pad 2 (nat (HourFromTime t)) @ '':''
     @ pad 2 (nat (MinFromTime t)) @ '':'' @ pad 2 (nat (SecFromTime t)) @ ''.''
     @ pad 3 (nat (msFromTime t)) @ ''Z''"

text \<open>
  Reading the format back, as \<open>Date.parse\<close> reads the complete form with the zone
  \<open>Z\<close>: a year of four digits, or of six digits after a sign (\<open>-000000\<close> is not a
  year), and two digits for every other field but the milliseconds, which have three.
  Anything else is not a date (\<open>None\<close>).
\<close>

definition digit_value :: "char \<Rightarrow> nat option" where
  "digit_value c =
     (let n = (of_char c :: nat) in if 48 \<le> n \<and> n \<le> 57 then Some (n - 48) else None)"

fun digits_value :: "nat \<Rightarrow> string \<Rightarrow> nat option" where
  "digits_value acc [] = Some acc"
| "digits_value acc (c # cs) =
     (case digit_value c of None \<Rightarrow> None | Some v \<Rightarrow> digits_value (acc * 10 + v) cs)"

definition number :: "nat \<Rightarrow> string \<Rightarrow> (nat \<times> string) option" where
  "number k s =
     (if length s < k then None
      else map_option (\<lambda>n. (n, drop k s)) (digits_value 0 (take k s)))"

definition expect :: "char \<Rightarrow> string \<Rightarrow> string option" where
  "expect c s = (case s of [] \<Rightarrow> None | x # xs \<Rightarrow> if x = c then Some xs else None)"

definition parse_year :: "string \<Rightarrow> (int \<times> string) option" where
  "parse_year s =
     (case s of
        [] \<Rightarrow> None
      | c # cs \<Rightarrow>
          if c = CHR ''+'' then map_option (\<lambda>(n, r). (int n, r)) (number 6 cs)
          else if c = CHR ''-''
          then (case number 6 cs of
                  None \<Rightarrow> None
                | Some (n, r) \<Rightarrow> if n = 0 then None else Some (- int n, r))
          else map_option (\<lambda>(n, r). (int n, r)) (number 4 s))"

definition parseISO :: "string \<Rightarrow> int option" where
  "parseISO s0 = do {
     (y, s) \<leftarrow> parse_year s0;
     s \<leftarrow> expect CHR ''-'' s;
     (m, s) \<leftarrow> number 2 s;
     s \<leftarrow> expect CHR ''-'' s;
     (dt, s) \<leftarrow> number 2 s;
     s \<leftarrow> expect CHR ''T'' s;
     (h, s) \<leftarrow> number 2 s;
     s \<leftarrow> expect CHR '':'' s;
     (mi, s) \<leftarrow> number 2 s;
     s \<leftarrow> expect CHR '':'' s;
     (sec, s) \<leftarrow> number 2 s;
     s \<leftarrow> expect CHR ''.'' s;
     (ms, s) \<leftarrow> number 3 s;
     s \<leftarrow> expect CHR ''Z'' s;
     if s \<noteq> [] \<or> m < 1 \<or> 12 < m \<or> dt < 1 \<or> 31 < dt \<or> 23 < h \<or> 59 < mi \<or> 59 < sec
     then None
     else Some (MakeDate (MakeDay y (int m - 1) (int dt))
                 (MakeTime (int h) (int mi) (int sec) (int ms)))
   }"

text \<open>\<open>toISOString\<close> raises a \<open>RangeError\<close> on a date without a time value.\<close>

datatype exception = RangeError

fun toISOString :: "Date \<Rightarrow> exception + string" where
  "toISOString (TimeValue t) =
     (if is_valid (TimeValue t) then Inr (iso_string t) else Inl RangeError)"
| "toISOString InvalidDate = Inl RangeError"

section \<open>View model\<close>

text \<open>
  \<open>chartData\<close> maps every row to a display point. The two calls into the date library
  (\<open>DateTime.fromISO(s).toFormat("HH:mm:ss")\<close> and \<open>DateTime.fromISO(s).toJSDate()\<close>)
  are parameters.
\<close>

definition chartData ::
  "(string \<Rightarrow> string) \<Rightarrow> (string \<Rightarrow> Date) \<Rightarrow> TimeSeriesData list \<Rightarrow> ChartData list" where
  "chartData toFormat toJSDate dataState =
     map (\<lambda>d. \<lparr>id_c = id_d d, time = toFormat (created_at d),
               value_c = people_count d, timestamp = toJSDate (created_at d)\<rparr>) dataState"

subsection \<open>The table: \<open>Array.prototype.sort\<close> with a comparator\<close>

text \<open>
  The comparator of \<open>tableData\<close>:
  \<open>(a, b) => b.timestamp.getTime() - a.timestamp.getTime()\<close>.
\<close>

definition compareFn :: "ChartData \<Rightarrow> ChartData \<Rightarrow> number" where
  "compareFn a b = minus_number (getTime (timestamp b)) (getTime (timestamp a))"

text \<open>
  The language's \<open>SortCompare\<close>: a comparator result that is NaN counts as \<open>0\<close>.
\<close>

definition SortCompare :: "('a \<Rightarrow> 'a \<Rightarrow> number) \<Rightarrow> 'a \<Rightarrow> 'a \<Rightarrow> int" where
  "SortCompare cmp x y = (case cmp x y of None \<Rightarrow> 0 | Some v \<Rightarrow> v)"

text \<open>
  \<open>Array.prototype.sort\<close> is a stable sort. It is modelled by insertion: an element
  goes in front of the first element of the sorted rest that it does not have to follow,
  so an element never overtakes an earlier one that compares equal.
\<close>

fun insert_by :: "('a \<Rightarrow> 'a \<Rightarrow> number) \<Rightarrow> 'a \<Rightarrow> 'a list \<Rightarrow> 'a list" where
  "insert_by cmp x [] = [x]"
| "insert_by cmp x (y # ys) =
     (if SortCompare cmp x y \<le> 0 then x # y # ys else y # insert_by cmp x ys)"

fun array_sort :: "('a \<Rightarrow> 'a \<Rightarrow> number) \<Rightarrow> 'a list \<Rightarrow> 'a list" where
  "array_sort cmp [] = []"
| "array_sort cmp (x # xs) = insert_by cmp x (array_sort cmp xs)"

definition tableData :: "ChartData list \<Rightarrow> ChartData list" where
  "tableData pts = array_sort compareFn pts"

subsection \<open>Threshold and latest value\<close>

text \<open>\<open>chartData.some((point) => point.value > threshold)\<close>\<close>

fun some :: "('a \<Rightarrow> bool) \<Rightarrow> 'a list \<Rightarrow> bool" where
  "some P [] = False"
| "some P (x # xs) = (if P x then True else some P xs)"

definition isThresholdExceeded :: "ChartData list \<Rightarrow> int \<Rightarrow> bool" where
  "isThresholdExceeded pts threshold = some (\<lambda>point. value_c point > threshold) pts"

text \<open>
  \<open>Array.prototype.at\<close>: a negative index counts from the end; out of range is
  \<open>undefined\<close> (\<open>None\<close>).
\<close>

definition at :: "'a list \<Rightarrow> int \<Rightarrow> 'a option" where
  "at xs i =
     (let len = int (length xs); k = (if 0 \<le> i then i else len + i)
      in if k < 0 \<or> len \<le> k then None else Some (xs ! nat k))"

text \<open>The latest value is a number or the string \<open>"N/A"\<close>.\<close>

datatype latest = Count int | NA

text \<open>\<open>chartData.at(-1)?.value ?? "N/A"\<close>\<close>

definition latestValue :: "ChartData list \<Rightarrow> latest" where
  "latestValue pts = (case at pts (- 1) of None \<Rightarrow> NA | Some p \<Rightarrow> Count (value_c p))"

text \<open>
  Orderings of dates by their instants, used to state the properties of the table; both
  hold of valid dates only.
\<close>

fun not_before :: "Date \<Rightarrow> Date \<Rightarrow> bool" where
  "not_before (TimeValue a) (TimeValue b) = (b \<le> a)"
| "not_before _ _ = False"

fun after :: "Date \<Rightarrow> Date \<Rightarrow> bool" where
  "after (TimeValue a) (TimeValue b) = (b < a)"
| "after _ _ = False"

text \<open>A list of dates in ascending order, every date valid.\<close>

fun ascending_dates :: "Date list \<Rightarrow> bool" where
  "ascending_dates [] = True"
| "ascending_dates [d] = is_valid d"
| "ascending_dates (d # e # ds) = (not_before e d \<and> ascending_dates (e # ds))"

text \<open>The sort key that the comparator induces on points with valid dates.\<close>

definition neg_ms :: "ChartData \<Rightarrow> int" where
  "neg_ms p = (case timestamp p of TimeValue t \<Rightarrow> - t | InvalidDate \<Rightarrow> 0)"

section \<open>The CSV export\<close>

text \<open>
  A cell of the export is a number (the value) or a string. The template
  \<open>`"${cell}"`\<close> turns it into text between two double quotes; an integer is printed in
  decimal, with a minus sign when it is negative.
\<close>

datatype cell = Num int | Str string

fun show_nat :: "nat \<Rightarrow> string" where
  "show_nat n = (if n < 10 then [digit_char n] else show_nat (n div 10) @ [digit_char (n mod 10)])"

declare show_nat.simps [simp del]

definition show_int :: "int \<Rightarrow> string" where
  "show_int i = (if i < 0 then ''-'' @ show_nat (nat (- i)) else show_nat (nat i))"

fun ToString :: "cell \<Rightarrow> string" where
  "ToString (Num n) = show_int n"
| "ToString (Str s) = s"

text \<open>\<open>Array.prototype.join\<close>\<close>

fun join :: "string \<Rightarrow> string list \<Rightarrow> string" where
  "join sep [] = []"
| "join sep [x] = x"
| "join sep (x # y # ys) = x @ sep @ join sep (y # ys)"

definition quoted :: "cell \<Rightarrow> string" where
  "quoted c = [CHR 0x22] @ ToString c @ [CHR 0x22]"

text \<open>
  \<open>chartData.map((row) => [row.value, row.timestamp.toISOString()])\<close>: the first
  timestamp that cannot be printed ends the export with its exception.
\<close>

fun rows_of :: "ChartData list \<Rightarrow> exception + cell list list" where
  "rows_of [] = Inr []"
| "rows_of (row # rest) =
     (case toISOString (timestamp row) of
        Inl e \<Rightarrow> Inl e
      | Inr s \<Rightarrow> (case rows_of rest of
                    Inl e \<Rightarrow> Inl e
                  | Inr rows \<Rightarrow> Inr ([Num (value_c row), Str s] # rows)))"

definition header :: "cell list" where
  "header = [Str ''People Count'', Str ''Timestamp (ISO)'']"

definition csv_of :: "cell list list \<Rightarrow> string" where
  "csv_of rows = join [CHR 0x0A] (map (\<lambda>r. join '','' (map quoted r)) (header # rows))"

text \<open>
  The file offered to the user: its text, its type and its name. The date in the name
  comes from the date library (\<open>DateTime.now().toISODate()\<close>) and is a parameter.
\<close>

record download =
  content :: string
  mime :: string
  filename :: string

definition exportDataToCsv :: "string \<Rightarrow> ChartData list \<Rightarrow> exception + download" where
  "exportDataToCsv today pts =
     (case rows_of pts of
        Inl e \<Rightarrow> Inl e
      | Inr rows \<Rightarrow>
          Inr \<lparr>content = csv_of rows, mime = ''text/csv;charset=utf-8;'',
               filename = ''people_counter_export_'' @ today @ ''.csv''\<rparr>)"

text \<open>The lines of a text, to state what the document holds: the text between newlines.\<close>

fun split_lines :: "string \<Rightarrow> string list" where
  "split_lines [] = [[]]"
| "split_lines (c # cs) =
     (if c = CHR 0x0A then [] # split_lines cs
      else (case split_lines cs of [] \<Rightarrow> [[c]] | l # ls \<Rightarrow> (c # l) # ls))"

text \<open>
  Reading a line of the document back into its fields: every field stands between two
  double quotes, with a comma between one field and the next. The scan is at the start
  of a field, inside one, or behind its closing quote; \<open>acc\<close> holds the field read so
  far. A line of another shape has no fields (\<open>None\<close>).
\<close>

datatype scan = Start | Inside | Closed

fun csv_fields :: "scan \<Rightarrow> string \<Rightarrow> string \<Rightarrow> string list option" where
  "csv_fields Start acc [] = None"
| "csv_fields Inside acc [] = None"
| "csv_fields Closed acc [] = Some [acc]"
| "csv_fields Start acc (c # cs) = (if c = CHR 0x22 then csv_fields Inside [] cs else None)"
| "csv_fields Inside acc (c # cs) =
     (if c = CHR 0x22 then csv_fields Closed acc cs else csv_fields Inside (acc @ [c]) cs)"
| "csv_fields Closed acc (c # cs) =
     (if c = CHR '','' then map_option ((#) acc) (csv_fields Start [] cs) else None)"

section \<open>The access gate's secret: \<open>atob\<close>\<close>

text \<open>
  \<open>atob\<close> decodes Base64: white space is dropped, one or two padding characters are
  removed from an input whose length is a multiple of four, a remaining length of
  \<open>1 mod 4\<close> or a character outside the alphabet raises (\<open>None\<close>), every character
  stands for six bits and the bits left over at the end are dropped.
\<close>

definition b64_value :: "char \<Rightarrow> nat option" where
  "b64_value c =
     (let n = (of_char c :: nat)
      in if 65 \<le> n \<and> n \<le> 90 then Some (n - 65)
         else if 97 \<le> n \<and> n \<le> 122 then Some (n - 71)
         else if 48 \<le> n \<and> n \<le> 57 then Some (n + 4)
         else if n = 43 then Some 62
         else if n = 47 then Some 63
         else None)"

fun sextets :: "string \<Rightarrow> nat list option" where
  "sextets [] = Some []"
| "sextets (c # cs) =
     (case b64_value c of None \<Rightarrow> None
      | Some v \<Rightarrow> (case sextets cs of None \<Rightarrow> None | Some vs \<Rightarrow> Some (v # vs)))"

fun octets :: "nat list \<Rightarrow> nat list" where
  "octets (a # b # c # d # vs) =
     (let n = ((a * 64 + b) * 64 + c) * 64 + d
      in n div 65536 # (n div 256) mod 256 # n mod 256 # octets vs)"
| "octets [a, b, c] = (let n = (a * 64 + b) * 64 + c in [n div 1024, (n div 4) mod 256])"
| "octets [a, b] = (let n = a * 64 + b in [n div 16])"
| "octets _ = []"

definition is_space :: "char \<Rightarrow> bool" where
  "is_space c = (c \<in> set [CHR 0x09, CHR 0x0A, CHR 0x0C, CHR 0x0D, CHR 0x20])"

definition strip_padding :: "string \<Rightarrow> string" where
  "strip_padding s =
     (if length s mod 4 = 0 \<and> s \<noteq> [] \<and> last s = CHR ''=''
      then (if butlast s \<noteq> [] \<and> last (butlast s) = CHR ''=''
            then butlast (butlast s) else butlast s)
      else s)"

definition atob :: "string \<Rightarrow> string option" where
  "atob s =
     (let d = strip_padding (filter (\<lambda>c. \<not> is_space c) s)
      in if length d mod 4 = 1 then None
         else (case sextets d of None \<Rightarrow> None | Some vs \<Rightarrow> Some (map char_of (octets vs))))"

section \<open>The data fetcher and the polling controller\<close>

text \<open>
  The repository holds two versions of the component: the gated one, with the password
  dialog and a row cap of 100, and the always-on one, which polls from mount on and has
  no cap.
\<close>

datatype variant = Gated | AlwaysOn

text \<open>
  The query that the client builds:
  \<open>from("people_counter").select("id, created_at, people_count")
  .order("created_at", { ascending: true })\<close>, with \<open>.limit(100)\<close> in the gated
  component and in the page that loads the initial rows.
\<close>

record query =
  relation :: string
  columns :: string
  order_column :: string
  ascending :: bool
  row_limit :: "nat option"

definition fetch_query :: "variant \<Rightarrow> query" where
  "fetch_query v =
     \<lparr>relation = ''people_counter'', columns = ''id, created_at, people_count'',
      order_column = ''created_at'', ascending = True,
      row_limit = (case v of Gated \<Rightarrow> Some 100 | AlwaysOn \<Rightarrow> None)\<rparr>"

definition page_query :: query where
  "page_query =
     \<lparr>relation = ''people_counter'', columns = ''id, created_at, people_count'',
      order_column = ''created_at'', ascending = True, row_limit = Some 100\<rparr>"

text \<open>
  What the remote data source answers: it orders the rows of the table by the instant of
  \<open>created_at\<close> (the parameter \<open>instant\<close> reads it off the column's value), ascending or
  descending, and then keeps the first \<open>n\<close> rows of that order when the query has a
  limit \<open>n\<close>.
\<close>

definition select_rows ::
  "(string \<Rightarrow> int) \<Rightarrow> query \<Rightarrow> TimeSeriesData list \<Rightarrow> TimeSeriesData list" where
  "select_rows instant q tbl =
     (let ordered = (if ascending q then sort_key (\<lambda>r. instant (created_at r)) tbl
                     else rev (sort_key (\<lambda>r. instant (created_at r)) tbl))
      in case row_limit q of None \<Rightarrow> ordered | Some n \<Rightarrow> take n ordered)"

text \<open>The answer to a query: \<open>{ data, error }\<close>, either of which may be \<open>null\<close>.\<close>

record response =
  data :: "TimeSeriesData list option"
  error :: "string option"

text \<open>
  The component's state (the \<open>useState\<close> cells) together with what its handlers do to
  the world around it: the clock in milliseconds, the time at which the interval timer
  fires next (\<open>None\<close> when no timer is set), the queries sent so far, the lines written
  with \<open>console.error\<close> and the alerts shown. The always-on component has no
  \<open>realtimeEnabled\<close>, \<open>showPasswordModal\<close> and \<open>password\<close>; its model never
  changes them.
\<close>

record Component =
  threshold :: int
  dataState :: "TimeSeriesData list"
  realtimeEnabled :: bool
  showPasswordModal :: bool
  password :: string
  refreshing :: bool
  lastRefreshed :: "Date option"
  clock :: nat
  interval :: "nat option"
  requests :: "query list"
  console :: "string list"
  alerts :: "string list"

text \<open>
  \<open>fetchData(setRefreshing, setDataState, setLastRefreshed)\<close> returns an asynchronous
  function and does nothing else. Calling the returned function runs it up to the
  \<open>await\<close> (\<open>fetch_begin\<close>: the flag is set and the query is sent); the rest
  (\<open>fetch_end\<close>) runs when the answer arrives.
\<close>

definition fetch_begin :: "variant \<Rightarrow> Component \<Rightarrow> Component" where
  "fetch_begin v s = s\<lparr>refreshing := True, requests := requests s @ [fetch_query v]\<rparr>"

definition fetch_end :: "response \<Rightarrow> Component \<Rightarrow> Component" where
  "fetch_end r s =
     (let s' = (case error r of
                  Some e \<Rightarrow> s\<lparr>console := console s @ [''Supabase fetch error: '' @ e]\<rparr>
                | None \<Rightarrow> s\<lparr>dataState := (case data r of None \<Rightarrow> [] | Some rows \<Rightarrow> rows),
                            lastRefreshed := Some (TimeValue (int (clock s)))\<rparr>)
      in s'\<lparr>refreshing := False\<rparr>)"

definition fetchData :: "variant \<Rightarrow> Component \<Rightarrow> Component" where
  "fetchData v = fetch_begin v"

definition period :: nat where
  "period = 5000"

definition setInterval :: "nat \<Rightarrow> Component \<Rightarrow> Component" where
  "setInterval ms s = s\<lparr>interval := Some (clock s + ms)\<rparr>"

definition clearInterval :: "Component \<Rightarrow> Component" where
  "clearInterval s = s\<lparr>interval := None\<rparr>"

text \<open>
  The timer's callback. The gated component's callback is
  \<open>() => { fetchData(setRefreshing, setDataState, setLastRefreshed) }\<close>: it builds the
  asynchronous function and drops it. The always-on component's callback is
  \<open>() => { fetch() }\<close> with \<open>fetch = fetchData(...)\<close>: it calls it.
\<close>

definition callback :: "variant \<Rightarrow> Component \<Rightarrow> Component" where
  "callback v s =
     (case v of
        Gated \<Rightarrow> (let unused = fetchData Gated in s)
      | AlwaysOn \<Rightarrow> (let fetch = fetchData AlwaysOn in fetch s))"

text \<open>
  The body of \<open>useEffect\<close>. Gated: return at once when realtime is off; otherwise build
  the asynchronous function (and drop it), then set the timer. Always-on: build the
  function, call it, set the timer.
\<close>

definition effect :: "variant \<Rightarrow> Component \<Rightarrow> Component" where
  "effect v s =
     (case v of
        Gated \<Rightarrow>
          (if \<not> realtimeEnabled s then s
           else let unused = fetchData Gated in setInterval period s)
      | AlwaysOn \<Rightarrow>
          (let fetch = fetchData AlwaysOn in setInterval period (fetch s)))"

text \<open>
  Setting \<open>realtimeEnabled\<close> to a new value re-renders; the effect depends on the
  flag, so its cleanup (\<open>clearInterval\<close>, which does nothing when no timer is set) and
  then its body run again.
\<close>

definition setRealtimeEnabled :: "bool \<Rightarrow> Component \<Rightarrow> Component" where
  "setRealtimeEnabled b s =
     (if realtimeEnabled s = b then s
      else effect Gated (clearInterval (s\<lparr>realtimeEnabled := b\<rparr>)))"

text \<open>Mounting: the initial state, then the effect.\<close>

definition mount :: "variant \<Rightarrow> TimeSeriesData list \<Rightarrow> Component" where
  "mount v rows =
     effect v \<lparr>threshold = (case v of Gated \<Rightarrow> 100 | AlwaysOn \<Rightarrow> 10), dataState = rows,
       realtimeEnabled = False, showPasswordModal = False, password = [], refreshing = False,
       lastRefreshed = None, clock = 0, interval = None, requests = [], console = [],
       alerts = []\<rparr>"

definition unmount :: "Component \<Rightarrow> Component" where
  "unmount s = clearInterval s"

text \<open>
  The passing of \<open>ms\<close> milliseconds in which nothing else happens: a timer that is set
  fires at its due time and then every \<open>period\<close> after it, as often as fits.
\<close>

definition elapse :: "variant \<Rightarrow> nat \<Rightarrow> Component \<Rightarrow> Component" where
  "elapse v ms s =
     (case interval s of
        None \<Rightarrow> s\<lparr>clock := clock s + ms\<rparr>
      | Some due \<Rightarrow>
          if clock s + ms < due then s\<lparr>clock := clock s + ms\<rparr>
          else let n = (clock s + ms - due) div period + 1
               in ((callback v ^^ n) s)\<lparr>clock := clock s + ms,
                                          interval := Some (due + n * period)\<rparr>)"

text \<open>
  The Confirm button of the password dialog. A failing \<open>atob\<close> would raise and leave
  the state as it is.
\<close>

definition onConfirm :: "Component \<Rightarrow> Component" where
  "onConfirm s =
     (case atob ''YmFqZXI='' of
        None \<Rightarrow> s
      | Some secret \<Rightarrow>
          if password s = secret
          then (setRealtimeEnabled True s)\<lparr>showPasswordModal := False\<rparr>
          else s\<lparr>alerts := alerts s @ [''Incorrect password'']\<rparr>)"

text \<open>The realtime button.\<close>

definition onToggle :: "Component \<Rightarrow> Component" where
  "onToggle s =
     (if realtimeEnabled s then setRealtimeEnabled False s
      else s\<lparr>showPasswordModal := True\<rparr>)"

datatype event =
    ClickToggle
  | ChangePassword string
  | ClickConfirm
  | ClickCancel
  | ChangeThreshold int
  | Elapse nat
  | Respond response
  | Unmount

fun step :: "variant \<Rightarrow> Component \<Rightarrow> event \<Rightarrow> Component" where
  "step Gated s ClickToggle = onToggle s"
| "step Gated s (ChangePassword p) = s\<lparr>password := p\<rparr>"
| "step Gated s ClickConfirm = onConfirm s"
| "step Gated s ClickCancel = s\<lparr>showPasswordModal := False\<rparr>"
| "step v s (ChangeThreshold n) = s\<lparr>threshold := n\<rparr>"
| "step v s (Elapse ms) = elapse v ms s"
| "step v s (Respond r) = fetch_end r s"
| "step v s Unmount = unmount s"
| "step AlwaysOn s _ = s"

definition run :: "variant \<Rightarrow> TimeSeriesData list \<Rightarrow> event list \<Rightarrow> Component" where
  "run v rows evs = foldl (step v) (mount v rows) evs"

section \<open>A table of 101 readings\<close>

text \<open>
  Reading \<open>i\<close> of the table was created \<open>i\<close> times five seconds after the epoch; the
  data source knows the instant of a \<open>created_at\<close> by reading the string.
\<close>

definition reading :: "nat \<Rightarrow> TimeSeriesData" where
  "reading i = \<lparr>id_d = show_nat i, created_at = iso_string (5000 * int i), people_count = int i\<rparr>"

definition instant_of :: "string \<Rightarrow> int" where
  "instant_of s = (case parseISO s of None \<Rightarrow> 0 | Some t \<Rightarrow> t)"

section \<open>Properties of the calendar arithmetic\<close>

lemma DayFromYear_cycle:
  assumes "0 \<le> c" "c \<le> 3" "0 \<le> f" "f \<le> 24" "0 \<le> e" "e \<le> 3"
  shows "DayFromYear (1601 + 400 * q + 100 * c + 4 * f + e)
     = 146097 * q + 36524 * c + 1461 * f + 365 * e - 134774"
proof -
  let ?y = "1601 + 400 * q + 100 * c + 4 * f + e"
  have d4: "(?y - 1969) div 4 = 100 * q + 25 * c + f - 92"
    by (rule int_div_pos_eq [where r = e]) (use assms in simp_all)
  have d100: "(?y - 1901) div 100 = 4 * q + c - 3"
    by (rule int_div_pos_eq [where r = "4 * f + e"]) (use assms in simp_all)
  have d400: "(?y - 1601) div 400 = q"
    by (rule int_div_pos_eq [where r = "100 * c + 4 * f + e"]) (use assms in simp_all)
  show ?thesis
    unfolding DayFromYear_def d4 d100 d400 by simp
qed

lemma DaysInYear_cycle:
  assumes "0 \<le> c" "c \<le> 3" "0 \<le> f" "f \<le> 24" "0 \<le> e" "e \<le> 3"
  shows "DaysInYear (1601 + 400 * q + 100 * c + 4 * f + e)
     = (if e = 3 \<and> (f < 24 \<or> c = 3) then 366 else 365)"
proof -
  let ?y = "1601 + 400 * q + 100 * c + 4 * f + e"
  show ?thesis
  proof (cases "e = 3")
    case False
    have "?y mod 4 = e + 1"
      by (rule int_mod_pos_eq [where q = "400 + 100 * q + 25 * c + f"])
        (use assms False in simp_all)
    with assms False show ?thesis by (simp add: DaysInYear_def)
  next
    case e: True
    have m4: "?y mod 4 = 0"
      by (rule int_mod_pos_eq [where q = "401 + 100 * q + 25 * c + f"])
        (use e in simp_all)
    show ?thesis
    proof (cases "f < 24")
      case True
      have "?y mod 100 = 4 + 4 * f"
        by (rule int_mod_pos_eq [where q = "16 + 4 * q + c"]) (use assms e True in simp_all)
      with assms e True m4 show ?thesis by (simp add: DaysInYear_def)
    next
      case False
      with assms have f: "f = 24" by simp
      have m100: "?y mod 100 = 0"
        by (rule int_mod_pos_eq [where q = "17 + 4 * q + c"]) (use e f in simp_all)
      show ?thesis
      proof (cases "c = 3")
        case True
        have "?y mod 400 = 0"
          by (rule int_mod_pos_eq [where q = "5 + q"]) (use e f True in simp_all)
        with e f True m4 m100 show ?thesis by (simp add: DaysInYear_def)
      next
        case False
        have "?y mod 400 = 100 + 100 * c"
          by (rule int_mod_pos_eq [where q = "4 + q"]) (use assms e f False in simp_all)
        with assms e f False m4 m100 show ?thesis by (simp add: DaysInYear_def)
      qed
    qed
  qed
qed

lemma div_bounds: "0 < m \<Longrightarrow> m * (x div m) \<le> x \<and> x < m * (x div m) + m" for m x :: int
proof -
  assume m: "0 < m"
  have "x = m * (x div m) + x mod m" by simp
  moreover from m have "0 \<le> x mod m" "x mod m < m" by simp_all
  ultimately show ?thesis by linarith
qed

text \<open>The digits of a day in the 400-year cycle.\<close>

lemma YearFromDay_digits:
  obtains q c f e r2 where
    "YearFromDay d = 1601 + 400 * q + 100 * c + 4 * f + e"
    "d + 134774 = 146097 * q + 36524 * c + 1461 * f + r2"
    "0 \<le> c" "c \<le> 3" "0 \<le> f" "f \<le> 24" "0 \<le> e" "e \<le> 3"
    "365 * e \<le> r2"
    "r2 - 365 * e < (if e = 3 \<and> (f < 24 \<or> c = 3) then 366 else 365)"
proof -
  define n where "n = d + 134774"
  define q where "q = n div 146097"
  define r where "r = n mod 146097"
  define k where "k = r div 36524"
  define c where "c = min 3 k"
  define r1 where "r1 = r - c * 36524"
  define f where "f = r1 div 1461"
  define r2 where "r2 = r1 - f * 1461"
  define j where "j = r2 div 365"
  define e where "e = min 3 j"
  have y: "YearFromDay d = 1601 + 400 * q + 100 * c + 4 * f + e"
    unfolding YearFromDay_def Let_def e_def j_def r2_def f_def r1_def c_def k_def r_def q_def
      n_def
    by (rule refl)
  have n: "n = 146097 * q + r"
    by (simp add: q_def r_def)
  have r: "0 \<le> r" "r < 146097"
    by (simp_all add: r_def)
  have k: "36524 * k \<le> r" "r < 36524 * k + 36524"
    using div_bounds [of 36524 r] by (simp_all add: k_def)
  have c: "0 \<le> c" "c \<le> 3"
    using r k unfolding c_def by linarith+
  have r1: "0 \<le> r1" "c < 3 \<Longrightarrow> r1 < 36524" "r1 < 36525"
    using r k unfolding r1_def c_def by linarith+
  have fb: "1461 * f \<le> r1" "r1 < 1461 * f + 1461"
    using div_bounds [of 1461 r1] by (simp_all add: f_def)
  have f: "0 \<le> f" "f \<le> 24"
    using r1 fb by linarith+
  have r2: "0 \<le> r2" "r2 < 1461" "f = 24 \<Longrightarrow> c < 3 \<Longrightarrow> r2 < 1460"
    using r1 fb unfolding r2_def by linarith+
  have j: "365 * j \<le> r2" "r2 < 365 * j + 365"
    using div_bounds [of 365 r2] by (simp_all add: j_def)
  have e: "0 \<le> e" "e \<le> 3"
    using r2 j unfolding e_def by linarith+
  have e1: "365 * e \<le> r2"
    using r2 j unfolding e_def by linarith
  have e2: "e < 3 \<Longrightarrow> r2 - 365 * e < 365"
    using r2 j unfolding e_def by linarith
  have e3: "r2 - 365 * e < (if e = 3 \<and> (f < 24 \<or> c = 3) then 366 else 365)"
  proof (cases "e = 3")
    case True
    with r2 f c show ?thesis by auto
  next
    case False
    with e e2 show ?thesis by simp
  qed
  have d: "d + 134774 = 146097 * q + 36524 * c + 1461 * f + r2"
    using n by (simp add: n_def r1_def r2_def)
  from y d c f e e1 e3 show ?thesis
    by (rule that)
qed

lemma YearFromDay_bounds:
  "DayFromYear (YearFromDay d) \<le> d \<and> d < DayFromYear (YearFromDay d) + DaysInYear (YearFromDay d)"
proof -
  obtain q c f e r2 where *:
    "YearFromDay d = 1601 + 400 * q + 100 * c + 4 * f + e"
    "d + 134774 = 146097 * q + 36524 * c + 1461 * f + r2"
    "0 \<le> c" "c \<le> 3" "0 \<le> f" "f \<le> 24" "0 \<le> e" "e \<le> 3"
    "365 * e \<le> r2"
    "r2 - 365 * e < (if e = 3 \<and> (f < 24 \<or> c = 3) then 366 else 365)"
    by (rule YearFromDay_digits)
  have a: "DayFromYear (YearFromDay d) = 146097 * q + 36524 * c + 1461 * f + 365 * e - 134774"
    unfolding *(1) using *(3-8) by (rule DayFromYear_cycle)
  have b: "DaysInYear (YearFromDay d) = (if e = 3 \<and> (f < 24 \<or> c = 3) then 366 else 365)"
    unfolding *(1) using *(3-8) by (rule DaysInYear_cycle)
  show ?thesis
    unfolding a b using *(2,9,10) by linarith
qed

lemma time_fields:
  "MakeDate (Day t) (MakeTime (HourFromTime t) (MinFromTime t) (SecFromTime t) (msFromTime t)) = t"
proof -
  define a where "a = t div 1000"
  define b where "b = a div 60"
  define c where "c = b div 60"
  have m: "t div 60000 = b"
    using zdiv_zmult2_eq [of 60 t 1000] by (simp add: a_def b_def)
  have h: "t div 3600000 = c"
    using zdiv_zmult2_eq [of 60 t 60000] by (simp add: m c_def)
  have d: "t div 86400000 = c div 24"
    using zdiv_zmult2_eq [of 24 t 3600000] by (simp add: h)
  have "t = 1000 * a + t mod 1000" by (simp add: a_def)
  moreover have "a = 60 * b + a mod 60" by (simp add: b_def)
  moreover have "b = 60 * c + b mod 60" by (simp add: c_def)
  moreover have "c = 24 * (c div 24) + c mod 24" by simp
  ultimately show ?thesis
    unfolding MakeDate_def MakeTime_def Day_def msPerDay_def HourFromTime_def MinFromTime_def
      SecFromTime_def msFromTime_def m h d
    unfolding a_def [symmetric]
    by linarith
qed

lemma time_ranges:
  "0 \<le> HourFromTime t \<and> HourFromTime t < 24 \<and> 0 \<le> MinFromTime t \<and> MinFromTime t < 60
   \<and> 0 \<le> SecFromTime t \<and> SecFromTime t < 60 \<and> 0 \<le> msFromTime t \<and> msFromTime t < 1000"
  by (simp add: HourFromTime_def MinFromTime_def SecFromTime_def msFromTime_def)

lemma DayWithinYear_range: "0 \<le> DayWithinYear t \<and> DayWithinYear t < 365 + InLeapYear t"
proof -
  have "DaysInYear y = 365 \<or> DaysInYear y = 366" for y
    by (simp add: DaysInYear_def)
  then have "DaysInYear (YearFromTime t) = 365 + InLeapYear t"
    by (auto simp: InLeapYear_def)
  with YearFromDay_bounds [of "Day t"] show ?thesis
    by (simp add: DayWithinYear_def YearFromTime_def)
qed

lemma InLeapYear_cases: "InLeapYear t = 0 \<or> InLeapYear t = 1"
  by (simp add: InLeapYear_def)

lemma MonthFromTime_range: "0 \<le> MonthFromTime t \<and> MonthFromTime t \<le> 11"
  by (simp add: MonthFromTime_def Let_def)

lemma DateFromTime_range: "1 \<le> DateFromTime t \<and> DateFromTime t \<le> 31"
  using DayWithinYear_range [of t] InLeapYear_cases [of t]
  unfolding DateFromTime_def MonthFromTime_def month_start_def Let_def
  by (auto split: if_splits)

lemma date_fields: "MakeDay (YearFromTime t) (MonthFromTime t) (DateFromTime t) = Day t"
  by (simp add: MakeDay_def DateFromTime_def DayWithinYear_def InLeapYear_def)

lemma Day_range:
  assumes "\<bar>t\<bar> \<le> 8640000000000000"
  shows "- 100000000 \<le> Day t \<and> Day t \<le> 100000000"
proof -
  have "86400000 * (t div 86400000) \<le> t \<and> t < 86400000 * (t div 86400000) + 86400000"
    by (rule div_bounds) simp
  with assms show ?thesis
    unfolding Day_def msPerDay_def by linarith
qed

lemma YearFromTime_range:
  assumes "\<bar>t\<bar> \<le> 8640000000000000"
  shows "- 999999 \<le> YearFromTime t \<and> YearFromTime t \<le> 999999"
proof -
  obtain q c f e r2 where *:
    "YearFromDay (Day t) = 1601 + 400 * q + 100 * c + 4 * f + e"
    "Day t + 134774 = 146097 * q + 36524 * c + 1461 * f + r2"
    "0 \<le> c" "c \<le> 3" "0 \<le> f" "f \<le> 24" "0 \<le> e" "e \<le> 3"
    "365 * e \<le> r2"
    "r2 - 365 * e < (if e = 3 \<and> (f < 24 \<or> c = 3) then 366 else 365)"
    by (rule YearFromDay_digits)
  from *(10) have "r2 - 365 * e < 366" by (simp split: if_splits)
  with * Day_range [OF assms] show ?thesis
    unfolding YearFromTime_def *(1) by linarith
qed

lemma digit_cases: "n < 10 \<Longrightarrow> n \<in> {0, 1, 2, 3, 4, 5, 6, 7, 8, 9}" for n :: nat
  by auto

lemma digit_value_digit_char: "n < 10 \<Longrightarrow> digit_value (digit_char n) = Some n"
  by (drule digit_cases) (auto simp: digit_value_def digit_char_def)

lemma digit_char_not_sign:
  "n < 10 \<Longrightarrow> digit_char n \<noteq> CHR ''+'' \<and> digit_char n \<noteq> CHR ''-''"
  by (drule digit_cases) (auto simp: digit_char_def)

lemma length_pad: "length (pad k n) = k"
  by (induction k arbitrary: n) simp_all

lemma digits_value_pad:
  "digits_value acc (pad k n @ cs) = digits_value (acc * 10 ^ k + n mod 10 ^ k) cs"
proof (induction k arbitrary: n cs)
  case 0
  then show ?case by simp
next
  case (Suc k)
  have "n mod (10 * 10 ^ k) = 10 * (n div 10 mod 10 ^ k) + n mod 10"
    by (rule mod_mult2_eq)
  then show ?case
    by (simp add: Suc.IH digit_value_digit_char algebra_simps)
qed

lemma number_pad: "n < 10 ^ k \<Longrightarrow> number k (pad k n @ rest) = Some (n, rest)"
  using digits_value_pad [of 0 k n "[]"]
  by (simp add: number_def length_pad)

lemma expect_Cons: "expect c (c # rest) = Some rest"
  by (simp add: expect_def)

lemma pad_Suc_hd: "\<exists>d cs. d < 10 \<and> pad (Suc k) n = digit_char d # cs"
proof (induction k arbitrary: n)
  case 0
  have "n mod 10 < 10 \<and> pad (Suc 0) n = digit_char (n mod 10) # []" by simp
  then show ?case by blast
next
  case (Suc k)
  then obtain d cs where "d < 10" "pad (Suc k) (n div 10) = digit_char d # cs"
    by blast
  then have "d < 10 \<and> pad (Suc (Suc k)) n = digit_char d # (cs @ [digit_char (n mod 10)])"
    by simp
  then show ?case by blast
qed

lemma pad_4_hd: "\<exists>d cs. d < 10 \<and> pad 4 n = digit_char d # cs"
proof -
  have "(4::nat) = Suc 3" by simp
  then show ?thesis using pad_Suc_hd [of 3 n] by (simp only:)
qed

lemma parse_year_string:
  assumes "- 999999 \<le> y" "y \<le> 999999"
  shows "parse_year (year_string y @ rest) = Some (y, rest)"
proof (cases "0 \<le> y \<and> y \<le> 9999")
  case True
  obtain d cs where d: "d < 10" "pad 4 (nat y) = digit_char d # cs"
    using pad_4_hd by blast
  from True have "nat y < 10 ^ 4" by (simp add: nat_less_iff)
  then have "number 4 (pad 4 (nat y) @ rest) = Some (nat y, rest)"
    by (rule number_pad)
  with True d digit_char_not_sign [OF d(1)] show ?thesis
    by (simp add: parse_year_def year_string_def)
next
  case False
  from assms have "nat \<bar>y\<bar> < 10 ^ 6" by (simp add: nat_less_iff)
  then have "number 6 (pad 6 (nat \<bar>y\<bar>) @ rest) = Some (nat \<bar>y\<bar>, rest)"
    by (rule number_pad)
  with False show ?thesis
    by (auto simp: parse_year_def year_string_def)
qed

lemma iso_roundtrip:
  assumes "\<bar>t\<bar> \<le> 8640000000000000"
  shows "parseISO (iso_string t) = Some t"
proof -
  define mo where "mo = nat (MonthFromTime t + 1)"
  define dt where "dt = nat (DateFromTime t)"
  define h where "h = nat (HourFromTime t)"
  define mi where "mi = nat (MinFromTime t)"
  define sec where "sec = nat (SecFromTime t)"
  define ms where "ms = nat (msFromTime t)"
  have mo: "1 \<le> mo" "mo \<le> 12" "int mo - 1 = MonthFromTime t"
    using MonthFromTime_range [of t] unfolding mo_def by linarith+
  have dt: "1 \<le> dt" "dt \<le> 31" "int dt = DateFromTime t"
    using DateFromTime_range [of t] unfolding dt_def by linarith+
  have tm: "h \<le> 23" "mi \<le> 59" "sec \<le> 59" "ms \<le> 999" "int h = HourFromTime t"
    "int mi = MinFromTime t" "int sec = SecFromTime t" "int ms = msFromTime t"
    using time_ranges [of t] unfolding h_def mi_def sec_def ms_def by linarith+
  have lt: "mo < 10 ^ 2" "dt < 10 ^ 2" "h < 10 ^ 2" "mi < 10 ^ 2" "sec < 10 ^ 2" "ms < 10 ^ 3"
    using mo dt tm by simp_all
  have y: "parse_year (year_string (YearFromTime t) @ rest) = Some (YearFromTime t, rest)" for rest
    using YearFromTime_range [OF assms] by (intro parse_year_string) simp_all
  have "parseISO (iso_string t)
      = Some (MakeDate (MakeDay (YearFromTime t) (int mo - 1) (int dt))
                (MakeTime (int h) (int mi) (int sec) (int ms)))"
    unfolding iso_string_def parseISO_def
    unfolding mo_def [symmetric] dt_def [symmetric] h_def [symmetric] mi_def [symmetric]
      sec_def [symmetric] ms_def [symmetric]
    using mo(1,2) dt(1,2) tm(1-3)
    by (simp add: y expect_Cons number_pad [OF lt(1)] number_pad [OF lt(2)] number_pad [OF lt(3)]
        number_pad [OF lt(4)] number_pad [OF lt(5)] number_pad [OF lt(6)] del: pad.simps)
  also have "\<dots> = Some t"
    by (simp only: mo dt tm date_fields time_fields)
  finally show ?thesis .
qed

section \<open>Properties of the view model\<close>

lemma some_iff: "some P xs \<longleftrightarrow> (\<exists>x\<in>set xs. P x)"
  by (induction xs) auto

text \<open>
  C3: \<open>isThresholdExceeded\<close> holds exactly when some point's value is strictly greater
  than the threshold, which is to say when the sequence is not empty and the greatest
  value is strictly greater than the threshold; it is false for the empty sequence.
\<close>

theorem isThresholdExceeded_iff:
  "(isThresholdExceeded pts n \<longleftrightarrow> (\<exists>p\<in>set pts. n < value_c p))
   \<and> (isThresholdExceeded pts n \<longleftrightarrow> pts \<noteq> [] \<and> n < Max (value_c ` set pts))
   \<and> \<not> isThresholdExceeded [] n"
proof -
  have a: "isThresholdExceeded pts n \<longleftrightarrow> (\<exists>p\<in>set pts. n < value_c p)"
    by (simp add: isThresholdExceeded_def some_iff)
  have b: "(\<exists>p\<in>set pts. n < value_c p)
      \<longleftrightarrow> pts \<noteq> [] \<and> n < Max (value_c ` set pts)"
  proof (cases "pts = []")
    case True
    then show ?thesis by simp
  next
    case False
    then have "finite (value_c ` set pts)" "value_c ` set pts \<noteq> {}" by simp_all
    then have "n < Max (value_c ` set pts) \<longleftrightarrow> (\<exists>v\<in>value_c ` set pts. n < v)"
      by (rule Max_gr_iff)
    with False show ?thesis by auto
  qed
  have c: "\<not> isThresholdExceeded [] n"
    by (simp add: isThresholdExceeded_def)
  from a b c show ?thesis by blast
qed

theorem isThresholdExceeded_iff_witness:
  "isThresholdExceeded [\<lparr>id_c = ''a'', time = ''08:00:00'', value_c = 3, timestamp = TimeValue 0\<rparr>,
      \<lparr>id_c = ''b'', time = ''08:00:05'', value_c = 12, timestamp = TimeValue 5000\<rparr>] 10
   \<and> Max (value_c ` set [\<lparr>id_c = ''a'', time = ''08:00:00'', value_c = 3, timestamp = TimeValue 0\<rparr>,
      \<lparr>id_c = ''b'', time = ''08:00:05'', value_c = 12, timestamp = TimeValue 5000\<rparr>]) = 12
   \<and> \<not> isThresholdExceeded [\<lparr>id_c = ''a'', time = ''08:00:00'', value_c = 3, timestamp = TimeValue 0\<rparr>,
      \<lparr>id_c = ''b'', time = ''08:00:05'', value_c = 12, timestamp = TimeValue 5000\<rparr>] 12"
  using isThresholdExceeded_iff [of "[\<lparr>id_c = ''a'', time = ''08:00:00'', value_c = 3, timestamp = TimeValue 0\<rparr>,
      \<lparr>id_c = ''b'', time = ''08:00:05'', value_c = 12, timestamp = TimeValue 5000\<rparr>]" 10]
    isThresholdExceeded_iff [of "[\<lparr>id_c = ''a'', time = ''08:00:00'', value_c = 3, timestamp = TimeValue 0\<rparr>,
      \<lparr>id_c = ''b'', time = ''08:00:05'', value_c = 12, timestamp = TimeValue 5000\<rparr>]" 12]
  by simp

lemma at_last: "at xs (- 1) = (if xs = [] then None else Some (last xs))"
  by (cases xs rule: rev_cases) (auto simp: at_def Let_def nth_append)

lemma not_before_trans: "not_before a b \<Longrightarrow> not_before b c \<Longrightarrow> not_before a c"
  by (cases a; cases b; cases c) auto

lemma ascending_dates_last: "ascending_dates ds \<Longrightarrow> \<forall>d\<in>set ds. not_before (last ds) d"
proof (induction ds rule: ascending_dates.induct)
  case 1
  then show ?case by simp
next
  case (2 d')
  then show ?case by (cases d') auto
next
  case (3 d' e ds)
  then have ih: "\<forall>d\<in>set (e # ds). not_before (last (e # ds)) d" and step: "not_before e d'"
    by simp_all
  from ih have "not_before (last (e # ds)) e" by simp
  then have "not_before (last (e # ds)) d'" using step by (rule not_before_trans)
  with ih show ?case by simp
qed

text \<open>
  C5: \<open>latestValue\<close> is the no-data marker for the empty sequence and otherwise the
  value of the last point of the sequence; when the sequence is in chronological order,
  that point is chronologically last: no point of the sequence is later.
\<close>

theorem latestValue_last:
  "latestValue [] = NA
   \<and> (pts \<noteq> [] \<longrightarrow> latestValue pts = Count (value_c (last pts)))
   \<and> (ascending_dates (map timestamp pts) \<longrightarrow>
        (\<forall>p\<in>set pts. not_before (timestamp (last pts)) (timestamp p)))"
proof -
  have "ascending_dates (map timestamp pts) \<Longrightarrow> p \<in> set pts
      \<Longrightarrow> not_before (timestamp (last pts)) (timestamp p)" for p
    using ascending_dates_last [of "map timestamp pts"]
    by (cases "pts = []") (auto simp: last_map)
  then show ?thesis
    by (auto simp: latestValue_def at_last)
qed

theorem latestValue_last_witness:
  "[\<lparr>id_c = ''a'', time = ''08:00:00'', value_c = 3, timestamp = TimeValue 0\<rparr>,
      \<lparr>id_c = ''b'', time = ''08:00:05'', value_c = 12, timestamp = TimeValue 5000\<rparr>] \<noteq> []
   \<and> ascending_dates (map timestamp [\<lparr>id_c = ''a'', time = ''08:00:00'', value_c = 3, timestamp = TimeValue 0\<rparr>,
      \<lparr>id_c = ''b'', time = ''08:00:05'', value_c = 12, timestamp = TimeValue 5000\<rparr>])
   \<and> latestValue [\<lparr>id_c = ''a'', time = ''08:00:00'', value_c = 3, timestamp = TimeValue 0\<rparr>,
      \<lparr>id_c = ''b'', time = ''08:00:05'', value_c = 12, timestamp = TimeValue 5000\<rparr>] = Count 12
   \<and> not_before (TimeValue 5000) (TimeValue 0)
   \<and> not_before (TimeValue 5000) (TimeValue 5000)"
  using latestValue_last [of "[\<lparr>id_c = ''a'', time = ''08:00:00'', value_c = 3, timestamp = TimeValue 0\<rparr>,
      \<lparr>id_c = ''b'', time = ''08:00:05'', value_c = 12, timestamp = TimeValue 5000\<rparr>]"]
  by simp

lemma mset_insert_by: "mset (insert_by cmp x ys) = add_mset x (mset ys)"
  by (induction ys) auto

lemma mset_array_sort: "mset (array_sort cmp xs) = mset xs"
  by (induction xs) (auto simp: mset_insert_by)

lemma SortCompare_valid:
  "is_valid (timestamp x) \<Longrightarrow> is_valid (timestamp y) \<Longrightarrow>
   SortCompare compareFn x y \<le> 0 \<longleftrightarrow> neg_ms x \<le> neg_ms y"
  by (cases "timestamp x"; cases "timestamp y")
    (auto simp: SortCompare_def compareFn_def neg_ms_def)

lemma insert_by_insort:
  "is_valid (timestamp x) \<Longrightarrow> \<forall>p\<in>set ys. is_valid (timestamp p) \<Longrightarrow>
   insert_by compareFn x ys = insort_key neg_ms x ys"
  by (induction ys) (auto simp: SortCompare_valid)

text \<open>On valid dates the table is the library's stable sort on the negated instants.\<close>

lemma array_sort_sort_key:
  "\<forall>p\<in>set pts. is_valid (timestamp p) \<Longrightarrow> array_sort compareFn pts = sort_key neg_ms pts"
proof (induction pts)
  case Nil
  then show ?case by simp
next
  case (Cons x xs)
  then have "array_sort compareFn xs = sort_key neg_ms xs" by simp
  moreover from Cons.prems have "\<forall>p\<in>set (sort_key neg_ms xs). is_valid (timestamp p)" by simp
  ultimately show ?case using Cons.prems
    by (simp add: insert_by_insort)
qed

lemma not_before_neg_ms:
  "is_valid (timestamp a) \<Longrightarrow> is_valid (timestamp b) \<Longrightarrow>
   not_before (timestamp a) (timestamp b) \<longleftrightarrow> neg_ms a \<le> neg_ms b"
  by (cases "timestamp a"; cases "timestamp b") (auto simp: neg_ms_def)

lemma timestamp_neg_ms:
  "is_valid (timestamp p) \<Longrightarrow> timestamp p = TimeValue t \<longleftrightarrow> neg_ms p = - t"
  by (cases "timestamp p") (auto simp: neg_ms_def)

text \<open>
  C4, as amended: the table is a permutation of the chart sequence; when every timestamp
  is a valid date, the table is in descending order of timestamp, equal timestamps
  allowed next to each other, and the points of any one timestamp stand in the table in
  their input order.
\<close>

theorem tableData_descending_stable:
  "mset (tableData pts) = mset pts
   \<and> ((\<forall>p\<in>set pts. is_valid (timestamp p)) \<longrightarrow>
        sorted_wrt (\<lambda>a b. not_before (timestamp a) (timestamp b)) (tableData pts)
        \<and> (\<forall>d. filter (\<lambda>p. timestamp p = d) (tableData pts)
               = filter (\<lambda>p. timestamp p = d) pts))"
proof (intro conjI impI allI)
  show "mset (tableData pts) = mset pts"
    by (simp add: tableData_def mset_array_sort)
next
  assume valid: "\<forall>p\<in>set pts. is_valid (timestamp p)"
  then have eq: "tableData pts = sort_key neg_ms pts"
    by (simp add: tableData_def array_sort_sort_key)
  have "sorted (map neg_ms (sort_key neg_ms pts))" by simp
  then have "sorted_wrt (\<lambda>a b. neg_ms a \<le> neg_ms b) (sort_key neg_ms pts)"
    by (simp add: sorted_map)
  then show "sorted_wrt (\<lambda>a b. not_before (timestamp a) (timestamp b)) (tableData pts)"
    unfolding eq
    by (rule sorted_wrt_mono_rel [rotated]) (use valid in \<open>simp add: not_before_neg_ms\<close>)
next
  fix d
  assume valid: "\<forall>p\<in>set pts. is_valid (timestamp p)"
  then have eq: "tableData pts = sort_key neg_ms pts"
    by (simp add: tableData_def array_sort_sort_key)
  show "filter (\<lambda>p. timestamp p = d) (tableData pts) = filter (\<lambda>p. timestamp p = d) pts"
  proof (cases d)
    case (TimeValue t)
    have "filter (\<lambda>p. timestamp p = d) xs = filter (\<lambda>p. neg_ms p = - t) xs"
      if "set xs = set pts" for xs
      using that valid TimeValue by (intro filter_cong) (auto simp: timestamp_neg_ms)
    then show ?thesis
      unfolding eq by (simp add: sort_key_stable)
  next
    case InvalidDate
    have "filter (\<lambda>p. timestamp p = d) xs = []" if "set xs = set pts" for xs
      using that valid InvalidDate by (auto simp: filter_empty_conv)
    then show ?thesis unfolding eq by simp
  qed
qed

theorem tableData_descending_stable_witness:
  "is_valid (TimeValue 0) \<and> is_valid (TimeValue 5000)
   \<and> tableData [\<lparr>id_c = ''a'', time = ''08:00:00'', value_c = 3, timestamp = TimeValue 0\<rparr>,
      \<lparr>id_c = ''b'', time = ''08:00:05'', value_c = 12, timestamp = TimeValue 5000\<rparr>]
     = [\<lparr>id_c = ''b'', time = ''08:00:05'', value_c = 12, timestamp = TimeValue 5000\<rparr>,
        \<lparr>id_c = ''a'', time = ''08:00:00'', value_c = 3, timestamp = TimeValue 0\<rparr>]
   \<and> sorted_wrt (\<lambda>a b. not_before (timestamp a) (timestamp b)) (tableData [\<lparr>id_c = ''a'', time = ''08:00:00'', value_c = 3, timestamp = TimeValue 0\<rparr>,
      \<lparr>id_c = ''b'', time = ''08:00:05'', value_c = 12, timestamp = TimeValue 5000\<rparr>])"
  using tableData_descending_stable [of "[\<lparr>id_c = ''a'', time = ''08:00:00'', value_c = 3, timestamp = TimeValue 0\<rparr>,
      \<lparr>id_c = ''b'', time = ''08:00:05'', value_c = 12, timestamp = TimeValue 5000\<rparr>]"]
  by (simp add: tableData_def compareFn_def SortCompare_def)

text \<open>
  Two points of one timestamp: their table is not in strictly descending order.
\<close>

theorem tableData_strict_counterexample:
  "\<not> sorted_wrt (\<lambda>a b. after (timestamp a) (timestamp b))
       (tableData [\<lparr>id_c = ''a'', time = ''08:00:00'', value_c = 3, timestamp = TimeValue 0\<rparr>,
                   \<lparr>id_c = ''b'', time = ''08:00:00'', value_c = 4, timestamp = TimeValue 0\<rparr>])"
  by (simp add: tableData_def compareFn_def SortCompare_def)

section \<open>Properties of the CSV export\<close>

lemma toISOString_valid:
  "is_valid d \<Longrightarrow> \<exists>t. d = TimeValue t \<and> \<bar>t\<bar> \<le> 8640000000000000 \<and> toISOString d = Inr (iso_string t)"
  by (cases d) auto

lemma toISOString_invalid: "\<not> is_valid d \<Longrightarrow> toISOString d = Inl RangeError"
  by (cases d) auto

lemma toISOString_Inr:
  "toISOString d = Inr s \<Longrightarrow> \<exists>t. d = TimeValue t \<and> \<bar>t\<bar> \<le> 8640000000000000 \<and> s = iso_string t"
  by (cases d) (auto split: if_splits)

lemma rows_of_valid:
  "\<forall>p\<in>set pts. is_valid (timestamp p) \<Longrightarrow>
   \<exists>rows. rows_of pts = Inr rows
     \<and> list_all2 (\<lambda>p r. \<exists>t. timestamp p = TimeValue t \<and> r = [Num (value_c p), Str (iso_string t)])
          pts rows"
proof (induction pts)
  case Nil
  then show ?case by simp
next
  case (Cons p pts)
  then obtain rows where rows: "rows_of pts = Inr rows"
    "list_all2 (\<lambda>p r. \<exists>t. timestamp p = TimeValue t \<and> r = [Num (value_c p), Str (iso_string t)])
       pts rows"
    by auto
  from Cons.prems obtain t where "timestamp p = TimeValue t"
    "toISOString (timestamp p) = Inr (iso_string t)"
    using toISOString_valid [of "timestamp p"] by auto
  with rows show ?case by simp
qed

lemma exception_eq: "e = RangeError" for e :: exception
  by (cases e)

lemma rows_of_invalid:
  "\<not> (\<forall>p\<in>set pts. is_valid (timestamp p)) \<Longrightarrow> rows_of pts = Inl RangeError"
proof (induction pts)
  case Nil
  then show ?case by simp
next
  case (Cons p pts)
  show ?case
  proof (cases "is_valid (timestamp p)")
    case True
    with Cons have "rows_of pts = Inl RangeError" by simp
    then show ?thesis by (simp add: exception_eq split: sum.split)
  next
    case False
    then show ?thesis by (simp add: toISOString_invalid)
  qed
qed

lemma rows_of_Inr:
  "rows_of pts = Inr rows \<Longrightarrow>
   list_all2 (\<lambda>p r. \<exists>t. timestamp p = TimeValue t \<and> \<bar>t\<bar> \<le> 8640000000000000
                \<and> r = [Num (value_c p), Str (iso_string t)]) pts rows"
proof (induction pts arbitrary: rows)
  case Nil
  then show ?case by simp
next
  case (Cons p pts)
  from Cons.prems obtain s rest where s: "toISOString (timestamp p) = Inr s"
    and rest: "rows_of pts = Inr rest" and rows: "rows = [Num (value_c p), Str s] # rest"
    by (auto split: sum.splits)
  from s obtain t where "timestamp p = TimeValue t" "\<bar>t\<bar> \<le> 8640000000000000" "s = iso_string t"
    using toISOString_Inr by blast
  with Cons.IH [OF rest] rows show ?case by simp
qed

text \<open>No newline in any field.\<close>

lemma digit_char_not_nl: "n < 10 \<Longrightarrow> CHR 0x0A \<noteq> digit_char n"
  by (drule digit_cases) (auto simp: digit_char_def)

lemma digit_char_mod_not_nl: "CHR 0x0A \<noteq> digit_char (n mod 10)"
  by (rule digit_char_not_nl) simp

lemma pad_no_nl: "CHR 0x0A \<notin> set (pad k n)"
  by (induction k arbitrary: n) (simp_all add: digit_char_mod_not_nl)

lemma show_nat_no_nl: "CHR 0x0A \<notin> set (show_nat n)"
proof (induction n rule: show_nat.induct)
  case (1 n)
  then show ?case
    by (subst show_nat.simps) (simp add: digit_char_not_nl digit_char_mod_not_nl)
qed

lemma show_int_no_nl: "CHR 0x0A \<notin> set (show_int i)"
  by (simp add: show_int_def show_nat_no_nl)

lemma iso_string_no_nl: "CHR 0x0A \<notin> set (iso_string t)"
  by (simp add: iso_string_def year_string_def pad_no_nl)

lemma split_lines_single: "CHR 0x0A \<notin> set l \<Longrightarrow> split_lines l = [l]"
  by (induction l) auto

lemma split_lines_append:
  "CHR 0x0A \<notin> set l \<Longrightarrow> split_lines (l @ CHR 0x0A # rest) = l # split_lines rest"
  by (induction l) auto

lemma split_lines_join_Cons:
  "\<forall>l\<in>set (x # ys). CHR 0x0A \<notin> set l \<Longrightarrow> split_lines (join [CHR 0x0A] (x # ys)) = x # ys"
proof (induction ys arbitrary: x)
  case Nil
  then show ?case by (simp add: split_lines_single)
next
  case (Cons y ys)
  then have "split_lines (join [CHR 0x0A] (y # ys)) = y # ys" by simp
  with Cons.prems show ?case
    using split_lines_append [of x "join [CHR 0x0A] (y # ys)"] by simp
qed

lemma quoted_no_nl: "CHR 0x0A \<notin> set (ToString c) \<Longrightarrow> CHR 0x0A \<notin> set (quoted c)"
  by (simp add: quoted_def)

lemma header_line:
  "join '','' (map quoted header) = quoted (Str ''People Count'') @ '','' @ quoted (Str ''Timestamp (ISO)'')"
  by (simp add: header_def)

lemma header_line_no_nl: "CHR 0x0A \<notin> set (join '','' (map quoted header))"
  by (simp add: header_def quoted_def)

lemma data_line:
  "join '','' (map quoted [Num v, Str s]) = quoted (Num v) @ '','' @ quoted (Str s)"
  by simp

lemma data_line_no_nl: "CHR 0x0A \<notin> set (join '','' (map quoted [Num v, Str (iso_string t)]))"
  by (simp add: quoted_def show_int_no_nl iso_string_no_nl)

text \<open>
  C6, as amended: when every timestamp is a valid date, the export produces a document of
  one line more than there are points; the first line is the header, its two fields
  between double quotes and a comma between them, and the lines after it are, in the
  order of the points, the point's value and its timestamp as printed by
  \<open>toISOString\<close>, each between double quotes. When some timestamp is not a valid
  date, the export raises a \<open>RangeError\<close> and produces no document.
\<close>

theorem exportDataToCsv_document:
  "((\<forall>p\<in>set pts. is_valid (timestamp p)) \<longrightarrow>
      (\<exists>d. exportDataToCsv today pts = Inr d
         \<and> length (split_lines (content d)) = length pts + 1
         \<and> hd (split_lines (content d))
             = quoted (Str ''People Count'') @ '','' @ quoted (Str ''Timestamp (ISO)'')
         \<and> list_all2 (\<lambda>p l. \<exists>t. timestamp p = TimeValue t
                        \<and> l = quoted (Num (value_c p)) @ '','' @ quoted (Str (iso_string t)))
              pts (tl (split_lines (content d)))))
   \<and> (\<not> (\<forall>p\<in>set pts. is_valid (timestamp p)) \<longrightarrow>
        exportDataToCsv today pts = Inl RangeError)"
proof (intro conjI impI)
  assume "\<forall>p\<in>set pts. is_valid (timestamp p)"
  then obtain rows where rows: "rows_of pts = Inr rows"
    and rel: "list_all2 (\<lambda>p r. \<exists>t. timestamp p = TimeValue t
                \<and> r = [Num (value_c p), Str (iso_string t)]) pts rows"
    using rows_of_valid by blast
  define d where "d = \<lparr>content = csv_of rows, mime = ''text/csv;charset=utf-8;'',
    filename = ''people_counter_export_'' @ today @ ''.csv''\<rparr>"
  define line where "line = (\<lambda>r. join '','' (map quoted r))"
  have ex: "exportDataToCsv today pts = Inr d"
    by (simp add: exportDataToCsv_def rows d_def)
  have no_nl: "CHR 0x0A \<notin> set (line r)" if "r \<in> set rows" for r
  proof -
    from that obtain i where "i < length rows" "r = rows ! i"
      by (auto simp: in_set_conv_nth)
    with rel have "\<exists>t. r = [Num (value_c (pts ! i)), Str (iso_string t)]"
      by (auto simp: list_all2_conv_all_nth)
    then obtain v t where "r = [Num v, Str (iso_string t)]"
      by blast
    with data_line_no_nl [of v t] show ?thesis
      unfolding line_def by (simp only: not_False_eq_True)
  qed
  have hn: "CHR 0x0A \<notin> set (line header)"
    unfolding line_def by (rule header_line_no_nl)
  have "\<forall>l\<in>set (line header # map line rows). CHR 0x0A \<notin> set l"
    using hn no_nl by auto
  then have "split_lines (join [CHR 0x0A] (line header # map line rows))
      = line header # map line rows"
    by (rule split_lines_join_Cons)
  then have "split_lines (content d) = line header # map line rows"
    by (simp add: d_def csv_of_def line_def)
  then have lines: "split_lines (content d)
      = (quoted (Str ''People Count'') @ '','' @ quoted (Str ''Timestamp (ISO)'')) # map line rows"
    by (simp only: line_def header_line)
  have len: "length rows = length pts"
    using rel by (simp add: list_all2_lengthD)
  have "list_all2 (\<lambda>p l. \<exists>t. timestamp p = TimeValue t
             \<and> l = quoted (Num (value_c p)) @ '','' @ quoted (Str (iso_string t))) pts (map line rows)"
    unfolding list_all2_map2
    by (rule list_all2_mono [OF rel]) (auto simp: line_def)
  with ex lines len
  show "\<exists>d. exportDataToCsv today pts = Inr d
         \<and> length (split_lines (content d)) = length pts + 1
         \<and> hd (split_lines (content d))
             = quoted (Str ''People Count'') @ '','' @ quoted (Str ''Timestamp (ISO)'')
         \<and> list_all2 (\<lambda>p l. \<exists>t. timestamp p = TimeValue t
                        \<and> l = quoted (Num (value_c p)) @ '','' @ quoted (Str (iso_string t)))
              pts (tl (split_lines (content d)))"
    by (intro exI [of _ d]) simp
next
  assume "\<not> (\<forall>p\<in>set pts. is_valid (timestamp p))"
  then show "exportDataToCsv today pts = Inl RangeError"
    by (simp add: exportDataToCsv_def rows_of_invalid)
qed

theorem exportDataToCsv_document_witness:
  "is_valid (TimeValue 0) \<and> is_valid (TimeValue 5000)
   \<and> (\<exists>d. exportDataToCsv ''2026-11-02'' [\<lparr>id_c = ''a'', time = ''08:00:00'', value_c = 3, timestamp = TimeValue 0\<rparr>,
      \<lparr>id_c = ''b'', time = ''08:00:05'', value_c = 12, timestamp = TimeValue 5000\<rparr>] = Inr d
          \<and> length (split_lines (content d)) = 3)
   \<and> \<not> is_valid InvalidDate
   \<and> exportDataToCsv ''2026-11-02''
        [\<lparr>id_c = ''c'', time = ''Invalid DateTime'', value_c = 7, timestamp = InvalidDate\<rparr>]
      = Inl RangeError"
  using exportDataToCsv_document [of "[\<lparr>id_c = ''a'', time = ''08:00:00'', value_c = 3, timestamp = TimeValue 0\<rparr>,
      \<lparr>id_c = ''b'', time = ''08:00:05'', value_c = 12, timestamp = TimeValue 5000\<rparr>]" "''2026-11-02''"]
    exportDataToCsv_document
      [of "[\<lparr>id_c = ''c'', time = ''Invalid DateTime'', value_c = 7, timestamp = InvalidDate\<rparr>]"
        "''2026-11-02''"]
  by auto

text \<open>A point whose timestamp is the Invalid Date: the export raises.\<close>

theorem exportDataToCsv_invalid_counterexample:
  "exportDataToCsv ''2026-11-02''
     [\<lparr>id_c = ''a'', time = ''Invalid DateTime'', value_c = 3, timestamp = InvalidDate\<rparr>]
   = Inl RangeError"
  by (simp add: exportDataToCsv_def)

lemma digit_char_not_dq: "n < 10 \<Longrightarrow> CHR 0x22 \<noteq> digit_char n"
  by (drule digit_cases) (auto simp: digit_char_def)

lemma digit_char_mod_not_dq: "CHR 0x22 \<noteq> digit_char (n mod 10)"
  by (rule digit_char_not_dq) simp

lemma pad_no_dq: "CHR 0x22 \<notin> set (pad k n)"
  by (induction k arbitrary: n) (simp_all add: digit_char_mod_not_dq)

lemma show_nat_no_dq: "CHR 0x22 \<notin> set (show_nat n)"
proof (induction n rule: show_nat.induct)
  case (1 n)
  then show ?case
    by (subst show_nat.simps) (simp add: digit_char_not_dq digit_char_mod_not_dq)
qed

lemma show_int_no_dq: "CHR 0x22 \<notin> set (show_int i)"
  by (simp add: show_int_def show_nat_no_dq)

lemma iso_string_no_dq: "CHR 0x22 \<notin> set (iso_string t)"
  by (simp add: iso_string_def year_string_def pad_no_dq)

lemma csv_fields_Inside:
  "CHR 0x22 \<notin> set f \<Longrightarrow>
   csv_fields Inside acc (f @ CHR 0x22 # rest) = csv_fields Closed (acc @ f) rest"
  by (induction f arbitrary: acc) auto

lemma csv_fields_data_line:
  assumes "CHR 0x22 \<notin> set (show_int v)" "CHR 0x22 \<notin> set s"
  shows "csv_fields Start [] (quoted (Num v) @ '','' @ quoted (Str s)) = Some [show_int v, s]"
proof -
  have "csv_fields Start [] (quoted (Num v) @ '','' @ quoted (Str s))
      = csv_fields Inside [] (show_int v @ CHR 0x22 # ('','' @ quoted (Str s)))"
    by (simp add: quoted_def)
  also have "\<dots> = csv_fields Closed (show_int v) ('','' @ quoted (Str s))"
    using csv_fields_Inside [OF assms(1), of "[]"] by simp
  also have "\<dots> = map_option ((#) (show_int v)) (csv_fields Inside [] (s @ CHR 0x22 # []))"
    by (simp add: quoted_def)
  also have "\<dots> = Some [show_int v, s]"
    using csv_fields_Inside [OF assms(2), of "[]" "[]"] by simp
  finally show ?thesis .
qed

lemma exportDataToCsv_lines:
  assumes "exportDataToCsv today pts = Inr d"
  shows "list_all2 (\<lambda>p l. \<exists>t. timestamp p = TimeValue t \<and> \<bar>t\<bar> \<le> 8640000000000000
           \<and> l = quoted (Num (value_c p)) @ '','' @ quoted (Str (iso_string t)))
         pts (tl (split_lines (content d)))"
proof -
  from assms obtain rows where rows: "rows_of pts = Inr rows" and d: "content d = csv_of rows"
    by (auto simp: exportDataToCsv_def split: sum.splits)
  define line where "line = (\<lambda>r. join '','' (map quoted r))"
  have rel: "list_all2 (\<lambda>p r. \<exists>t. timestamp p = TimeValue t \<and> \<bar>t\<bar> \<le> 8640000000000000
                \<and> r = [Num (value_c p), Str (iso_string t)]) pts rows"
    using rows by (rule rows_of_Inr)
  have no_nl: "CHR 0x0A \<notin> set (line r)" if "r \<in> set rows" for r
  proof -
    from that obtain i where "i < length rows" "r = rows ! i"
      by (auto simp: in_set_conv_nth)
    with rel have "\<exists>t. r = [Num (value_c (pts ! i)), Str (iso_string t)]"
      by (auto simp: list_all2_conv_all_nth)
    then obtain v t where "r = [Num v, Str (iso_string t)]"
      by blast
    with data_line_no_nl [of v t] show ?thesis
      unfolding line_def by (simp only: not_False_eq_True)
  qed
  have hn: "CHR 0x0A \<notin> set (line header)"
    unfolding line_def by (rule header_line_no_nl)
  have "\<forall>l\<in>set (line header # map line rows). CHR 0x0A \<notin> set l"
    using hn no_nl by auto
  then have "split_lines (join [CHR 0x0A] (line header # map line rows))
      = line header # map line rows"
    by (rule split_lines_join_Cons)
  then have lines: "tl (split_lines (content d)) = map line rows"
    by (simp add: d csv_of_def line_def)
  show ?thesis
    unfolding lines list_all2_map2
    by (rule list_all2_mono [OF rel]) (auto simp: line_def)
qed

text \<open>
  C7: in the document that the export produces, the line of every point reads back as two
  fields, the point's value and a string that parses as the instant of the point's
  timestamp; there is one such line for every point, in the order of the points, after
  the header. The export produces the document whenever every timestamp is a valid date.
\<close>

theorem csv_timestamp_roundtrip:
  "((\<forall>p\<in>set pts. is_valid (timestamp p)) \<longrightarrow> (\<exists>d. exportDataToCsv today pts = Inr d))
   \<and> (exportDataToCsv today pts = Inr d \<longrightarrow>
        list_all2 (\<lambda>p l. \<exists>s t. csv_fields Start [] l = Some [show_int (value_c p), s]
                     \<and> timestamp p = TimeValue t \<and> parseISO s = Some t)
          pts (tl (split_lines (content d))))"
proof (intro conjI impI)
  assume "\<forall>p\<in>set pts. is_valid (timestamp p)"
  then obtain rows where "rows_of pts = Inr rows"
    using rows_of_valid by blast
  then show "\<exists>d. exportDataToCsv today pts = Inr d"
    by (simp add: exportDataToCsv_def)
next
  assume "exportDataToCsv today pts = Inr d"
  then have "list_all2 (\<lambda>p l. \<exists>t. timestamp p = TimeValue t \<and> \<bar>t\<bar> \<le> 8640000000000000
           \<and> l = quoted (Num (value_c p)) @ '','' @ quoted (Str (iso_string t)))
         pts (tl (split_lines (content d)))"
    by (rule exportDataToCsv_lines)
  then show "list_all2 (\<lambda>p l. \<exists>s t. csv_fields Start [] l = Some [show_int (value_c p), s]
                     \<and> timestamp p = TimeValue t \<and> parseISO s = Some t)
          pts (tl (split_lines (content d)))"
  proof (rule list_all2_mono)
    fix p l
    assume "\<exists>t. timestamp p = TimeValue t \<and> \<bar>t\<bar> \<le> 8640000000000000
           \<and> l = quoted (Num (value_c p)) @ '','' @ quoted (Str (iso_string t))"
    then obtain t where t: "timestamp p = TimeValue t" "\<bar>t\<bar> \<le> 8640000000000000"
      and l: "l = quoted (Num (value_c p)) @ '','' @ quoted (Str (iso_string t))"
      by blast
    have "csv_fields Start [] l = Some [show_int (value_c p), iso_string t]"
      unfolding l by (rule csv_fields_data_line [OF show_int_no_dq iso_string_no_dq])
    moreover have "parseISO (iso_string t) = Some t"
      using t(2) by (rule iso_roundtrip)
    ultimately show "\<exists>s t. csv_fields Start [] l = Some [show_int (value_c p), s]
                     \<and> timestamp p = TimeValue t \<and> parseISO s = Some t"
      using t(1) by blast
  qed
qed

lemma iso_string_0: "iso_string 0 = ''1970-01-01T00:00:00.000Z''"
  by code_simp

lemma iso_string_5000: "iso_string 5000 = ''1970-01-01T00:00:05.000Z''"
  by code_simp

lemma rows_of_example:
  "rows_of [\<lparr>id_c = ''a'', time = ''08:00:00'', value_c = 3, timestamp = TimeValue 0\<rparr>,
      \<lparr>id_c = ''b'', time = ''08:00:05'', value_c = 12, timestamp = TimeValue 5000\<rparr>]
   = Inr [[Num 3, Str ''1970-01-01T00:00:00.000Z''], [Num 12, Str ''1970-01-01T00:00:05.000Z'']]"
  by (simp add: iso_string_0 iso_string_5000)

lemma export_example:
  "exportDataToCsv ''2026-11-02''
     [\<lparr>id_c = ''a'', time = ''08:00:00'', value_c = 3, timestamp = TimeValue 0\<rparr>,
      \<lparr>id_c = ''b'', time = ''08:00:05'', value_c = 12, timestamp = TimeValue 5000\<rparr>]
   = Inr \<lparr>content = csv_of [[Num 3, Str ''1970-01-01T00:00:00.000Z''],
                              [Num 12, Str ''1970-01-01T00:00:05.000Z'']],
          mime = ''text/csv;charset=utf-8;'',
          filename = ''people_counter_export_2026-11-02.csv''\<rparr>"
  unfolding exportDataToCsv_def rows_of_example by simp

lemma export_example_lines:
  "split_lines (csv_of [[Num 3, Str ''1970-01-01T00:00:00.000Z''],
                         [Num 12, Str ''1970-01-01T00:00:05.000Z'']])
   = [quoted (Str ''People Count'') @ '','' @ quoted (Str ''Timestamp (ISO)''),
      quoted (Num 3) @ '','' @ quoted (Str ''1970-01-01T00:00:00.000Z''),
      quoted (Num 12) @ '','' @ quoted (Str ''1970-01-01T00:00:05.000Z'')]"
  by code_simp

lemma export_example_fields:
  "csv_fields Start [] (quoted (Num 12) @ '','' @ quoted (Str ''1970-01-01T00:00:05.000Z''))
   = Some [''12'', ''1970-01-01T00:00:05.000Z'']"
  by code_simp

theorem csv_timestamp_roundtrip_witness:
  "is_valid (TimeValue 0) \<and> is_valid (TimeValue 5000)
   \<and> (\<exists>d. exportDataToCsv ''2026-11-02''
          [\<lparr>id_c = ''a'', time = ''08:00:00'', value_c = 3, timestamp = TimeValue 0\<rparr>,
           \<lparr>id_c = ''b'', time = ''08:00:05'', value_c = 12, timestamp = TimeValue 5000\<rparr>]
         = Inr d
        \<and> csv_fields Start [] (split_lines (content d) ! 2)
            = Some [''12'', ''1970-01-01T00:00:05.000Z''])
   \<and> parseISO ''1970-01-01T00:00:05.000Z'' = Some 5000"
proof -
  let ?pts = "[\<lparr>id_c = ''a'', time = ''08:00:00'', value_c = 3, timestamp = TimeValue 0\<rparr>,
      \<lparr>id_c = ''b'', time = ''08:00:05'', value_c = 12, timestamp = TimeValue 5000\<rparr>]"
  let ?d = "\<lparr>content = csv_of [[Num 3, Str ''1970-01-01T00:00:00.000Z''],
                              [Num 12, Str ''1970-01-01T00:00:05.000Z'']],
          mime = ''text/csv;charset=utf-8;'',
          filename = ''people_counter_export_2026-11-02.csv''\<rparr>"
  let ?l = "quoted (Num 12) @ '','' @ quoted (Str ''1970-01-01T00:00:05.000Z'')"
  have "list_all2 (\<lambda>p l. \<exists>s t. csv_fields Start [] l = Some [show_int (value_c p), s]
                     \<and> timestamp p = TimeValue t \<and> parseISO s = Some t)
          ?pts (tl (split_lines (content ?d)))"
    using csv_timestamp_roundtrip [of ?pts "''2026-11-02''" ?d] export_example by blast
  then have "\<exists>s t. csv_fields Start [] ?l = Some [show_int 12, s]
      \<and> TimeValue 5000 = TimeValue t \<and> parseISO s = Some t"
    by (simp add: export_example_lines)
  then obtain s t where a: "csv_fields Start [] ?l = Some [show_int 12, s]"
    and b: "TimeValue 5000 = TimeValue t" and c: "parseISO s = Some t"
    by blast
  from a have "s = ''1970-01-01T00:00:05.000Z''"
    unfolding export_example_fields by simp
  with b c have p: "parseISO ''1970-01-01T00:00:05.000Z'' = Some 5000"
    by simp
  have "split_lines (content ?d) ! 2 = ?l"
    by (simp add: export_example_lines)
  then have "csv_fields Start [] (split_lines (content ?d) ! 2)
      = Some [''12'', ''1970-01-01T00:00:05.000Z'']"
    by (simp only: export_example_fields)
  with p export_example show ?thesis by simp
qed

section \<open>Properties of the access gate\<close>

lemma atob_filter: "filter (\<lambda>c. \<not> is_space c) ''YmFqZXI='' = ''YmFqZXI=''"
  by (simp add: is_space_def)

lemma atob_padding: "strip_padding ''YmFqZXI='' = ''YmFqZXI''"
  by (simp add: strip_padding_def)

lemma atob_sextets: "sextets ''YmFqZXI'' = Some [24, 38, 5, 42, 25, 23, 8]"
  by (simp add: b64_value_def)

lemma atob_octets: "octets [24, 38, 5, 42, 25, 23, 8] = [98, 97, 106, 101, 114]"
  by simp

lemma atob_chars: "map char_of [98, 97, 106, 101, 114 :: nat] = ''bajer''"
proof -
  have "map char_of (map of_char ''bajer'' :: nat list) = ''bajer''"
    unfolding map_map o_def char_of_char by simp
  then show ?thesis by simp
qed

lemma atob_secret: "atob ''YmFqZXI='' = Some ''bajer''"
  unfolding atob_def Let_def atob_filter atob_padding atob_sextets atob_octets atob_chars
    option.case
  by simp

lemma onConfirm_eq:
  "onConfirm s =
     (if password s = ''bajer'' then (setRealtimeEnabled True s)\<lparr>showPasswordModal := False\<rparr>
      else s\<lparr>alerts := alerts s @ [''Incorrect password'']\<rparr>)"
  by (simp add: onConfirm_def atob_secret)

text \<open>
  C9: the decoded secret is the string \<open>bajer\<close>. Confirming that password while
  realtime is off turns realtime on, closes the dialog and sets the timer, and changes
  nothing else. Confirming any other password shows the alert and changes nothing else:
  realtime stays as it was, no timer is set and the readings are the same.
\<close>

theorem password_gate:
  "atob ''YmFqZXI='' = Some ''bajer''
   \<and> (password s = ''bajer'' \<and> \<not> realtimeEnabled s \<longrightarrow>
        onConfirm s = s\<lparr>realtimeEnabled := True, showPasswordModal := False,
                         interval := Some (clock s + 5000)\<rparr>)
   \<and> (password s \<noteq> ''bajer'' \<longrightarrow>
        onConfirm s = s\<lparr>alerts := alerts s @ [''Incorrect password'']\<rparr>
        \<and> realtimeEnabled (onConfirm s) = realtimeEnabled s
        \<and> interval (onConfirm s) = interval s
        \<and> dataState (onConfirm s) = dataState s)"
  by (simp add: atob_secret onConfirm_eq setRealtimeEnabled_def effect_def clearInterval_def
      setInterval_def period_def)

theorem password_gate_witness:
  "onConfirm (step Gated (mount Gated []) (ChangePassword ''bajer''))
     = (mount Gated [])\<lparr>password := ''bajer'', realtimeEnabled := True, interval := Some 5000\<rparr>
   \<and> onConfirm (step Gated (mount Gated []) (ChangePassword ''beer''))
     = (mount Gated [])\<lparr>password := ''beer'', alerts := [''Incorrect password'']\<rparr>"
  using password_gate [of "step Gated (mount Gated []) (ChangePassword ''bajer'')"]
    password_gate [of "step Gated (mount Gated []) (ChangePassword ''beer'')"]
  by (simp add: mount_def effect_def)

section \<open>Properties of the fetcher and of the polling controller\<close>

text \<open>
  C8: when the answer carries an error, the rest of the fetch writes one line to the
  console and clears \<open>refreshing\<close>; every other part of the state is as it was, so the
  readings and \<open>lastRefreshed\<close> are unchanged, no query is sent and the timer is not
  touched. A whole fetch that fails has sent its one query and nothing more.
\<close>

theorem fetch_failure_policy:
  "error r = Some e \<Longrightarrow>
   fetch_end r s
     = s\<lparr>console := console s @ [''Supabase fetch error: '' @ e], refreshing := False\<rparr>
   \<and> fetch_end r (fetchData v s)
     = s\<lparr>requests := requests s @ [fetch_query v],
          console := console s @ [''Supabase fetch error: '' @ e], refreshing := False\<rparr>"
  by (simp add: fetch_end_def fetchData_def fetch_begin_def)

theorem fetch_failure_policy_witness:
  "error \<lparr>data = None, error = Some ''timeout''\<rparr> = Some ''timeout''
   \<and> fetch_end \<lparr>data = None, error = Some ''timeout''\<rparr> (mount AlwaysOn [])
     = \<lparr>threshold = 10, dataState = [], realtimeEnabled = False, showPasswordModal = False,
        password = [], refreshing = False, lastRefreshed = None, clock = 0,
        interval = Some 5000, requests = [fetch_query AlwaysOn],
        console = [''Supabase fetch error: timeout''], alerts = []\<rparr>"
  using fetch_failure_policy [of "\<lparr>data = None, error = Some ''timeout''\<rparr>" "''timeout''"
      "mount AlwaysOn []" AlwaysOn]
  by (simp add: mount_def effect_def fetchData_def fetch_begin_def setInterval_def period_def)

text \<open>
  C10: pressing the realtime button while realtime is on clears the flag and the timer and
  leaves every other part of the state as it was.
\<close>

theorem disable_realtime_frame:
  "realtimeEnabled s \<Longrightarrow>
   step Gated s ClickToggle = s\<lparr>realtimeEnabled := False, interval := None\<rparr>"
  by (simp add: onToggle_def setRealtimeEnabled_def effect_def clearInterval_def)

theorem disable_realtime_frame_witness:
  "realtimeEnabled (run Gated [] [ClickToggle, ChangePassword ''bajer'', ClickConfirm])
   \<and> step Gated (run Gated [] [ClickToggle, ChangePassword ''bajer'', ClickConfirm]) ClickToggle
     = \<lparr>threshold = 100, dataState = [], realtimeEnabled = False, showPasswordModal = False,
        password = ''bajer'', refreshing = False, lastRefreshed = None, clock = 0,
        interval = None, requests = [], console = [], alerts = []\<rparr>"
proof -
  have r: "run Gated [] [ClickToggle, ChangePassword ''bajer'', ClickConfirm]
     = \<lparr>threshold = 100, dataState = [], realtimeEnabled = True, showPasswordModal = False,
        password = ''bajer'', refreshing = False, lastRefreshed = None, clock = 0,
        interval = Some 5000, requests = [], console = [], alerts = []\<rparr>"
    by (simp add: run_def mount_def effect_def onToggle_def onConfirm_eq setRealtimeEnabled_def
        clearInterval_def setInterval_def period_def)
  show ?thesis
    using disable_realtime_frame
      [of "run Gated [] [ClickToggle, ChangePassword ''bajer'', ClickConfirm]"]
    by (simp add: r)
qed

lemma callback_Gated: "callback Gated = (\<lambda>s. s)"
  by (rule ext) (simp add: callback_def)

lemma callback_AlwaysOn: "callback AlwaysOn = fetch_begin AlwaysOn"
  by (rule ext) (simp add: callback_def fetchData_def)

lemma funpow_same: "((\<lambda>s. s) ^^ n) = (\<lambda>s. s)"
  by (induction n) (simp_all add: o_def)

lemma elapse_Gated:
  "elapse Gated ms s =
     (case interval s of None \<Rightarrow> s\<lparr>clock := clock s + ms\<rparr>
      | Some due \<Rightarrow> if clock s + ms < due then s\<lparr>clock := clock s + ms\<rparr>
          else s\<lparr>clock := clock s + ms,
                 interval := Some (due + ((clock s + ms - due) div period + 1) * period)\<rparr>)"
  by (simp add: elapse_def callback_Gated funpow_same Let_def split: option.split)

lemma requests_step_Gated: "requests (step Gated s e) = requests s"
proof (cases e)
  case ClickToggle
  then show ?thesis
    by (simp add: onToggle_def setRealtimeEnabled_def effect_def clearInterval_def
        setInterval_def)
next
  case ClickConfirm
  then show ?thesis
    by (simp add: onConfirm_eq setRealtimeEnabled_def effect_def clearInterval_def
        setInterval_def)
next
  case (Elapse ms)
  then show ?thesis
    by (simp add: elapse_Gated split: option.split)
next
  case (Respond r)
  then show ?thesis
    by (simp add: fetch_end_def split: option.split)
next
  case Unmount
  then show ?thesis by (simp add: unmount_def clearInterval_def)
qed simp_all

lemma requests_foldl_Gated: "requests (foldl (step Gated) s evs) = requests s"
  by (induction evs arbitrary: s) (simp_all add: requests_step_Gated)

text \<open>The gated component sends no query, whatever happens to it.\<close>

lemma gated_never_fetches: "requests (run Gated rows evs) = []"
  by (simp add: run_def requests_foldl_Gated mount_def effect_def)

text \<open>
  C1, the gated component at the failing input: realtime is enabled with the right
  password and fifteen seconds pass. Realtime is on and the timer is set (it has fired
  three times and is due again at 20 s), yet no query has been sent and \<open>refreshing\<close>
  was never set.
\<close>

theorem gated_enable_sends_no_query:
  "run Gated [] [ClickToggle, ChangePassword ''bajer'', ClickConfirm, Elapse 5000, Elapse 10000]
   = \<lparr>threshold = 100, dataState = [], realtimeEnabled = True, showPasswordModal = False,
      password = ''bajer'', refreshing = False, lastRefreshed = None, clock = 15000,
      interval = Some 20000, requests = [], console = [], alerts = []\<rparr>"
  by (simp add: run_def mount_def effect_def onToggle_def onConfirm_eq setRealtimeEnabled_def
      clearInterval_def setInterval_def elapse_Gated period_def)

lemma requests_funpow_fetch_begin:
  "requests ((fetch_begin v ^^ n) s) = requests s @ replicate n (fetch_query v)"
proof (induction n)
  case 0
  then show ?case by simp
next
  case (Suc n)
  then show ?case
    by (simp add: fetch_begin_def replicate_append_same)
qed

lemma always_on_mount:
  "requests (mount AlwaysOn rows) = [fetch_query AlwaysOn]
   \<and> interval (mount AlwaysOn rows) = Some 5000 \<and> clock (mount AlwaysOn rows) = 0"
  by (simp add: mount_def effect_def fetchData_def fetch_begin_def setInterval_def period_def)

lemma div_step: "\<not> ms < (5000::nat) \<Longrightarrow> (ms - 5000) div 5000 + 1 = ms div 5000"
  by (simp add: le_div_geq)

lemma requests_elapse_due:
  "interval s = Some due \<Longrightarrow> due \<le> clock s + ms
   \<Longrightarrow> n = (clock s + ms - due) div period + 1
   \<Longrightarrow> requests (elapse v ms s) = requests ((callback v ^^ n) s)"
  by (simp add: elapse_def Let_def)

text \<open>
  The always-on component does what C1 asks: one query at mount and one more at the end
  of every full five seconds; once it is unmounted, time sends no query.
\<close>

lemma always_on_polls:
  "requests (elapse AlwaysOn ms (mount AlwaysOn rows))
     = replicate (1 + ms div 5000) (fetch_query AlwaysOn)"
proof (cases "ms < 5000")
  case True
  then show ?thesis
    by (simp add: elapse_def always_on_mount)
next
  case False
  define n where "n = ms div 5000"
  have n: "n = (clock (mount AlwaysOn rows) + ms - 5000) div period + 1"
    using False by (simp add: n_def always_on_mount period_def div_step)
  have "requests (elapse AlwaysOn ms (mount AlwaysOn rows))
      = requests ((callback AlwaysOn ^^ n) (mount AlwaysOn rows))"
    using False by (intro requests_elapse_due [OF _ _ n]) (simp_all add: always_on_mount)
  also have "\<dots> = [fetch_query AlwaysOn] @ replicate n (fetch_query AlwaysOn)"
    by (simp only: callback_AlwaysOn requests_funpow_fetch_begin always_on_mount)
  finally show ?thesis by (simp add: n_def)
qed

lemma unmount_stops_polling:
  "requests (elapse v ms (unmount s)) = requests s \<and> interval (elapse v ms (unmount s)) = None"
  by (simp add: elapse_def unmount_def clearInterval_def)

section \<open>Properties of the query\<close>

text \<open>
  A query in ascending order with a limit returns the first rows of that order: no row it
  returns is newer than a row it leaves out.
\<close>

lemma capped_query_keeps_oldest:
  assumes "ascending q" "row_limit q = Some n"
  shows "\<exists>dropped. mset (select_rows instant q tbl @ dropped) = mset tbl
     \<and> length (select_rows instant q tbl) = min n (length tbl)
     \<and> sorted (map (\<lambda>r. instant (created_at r)) (select_rows instant q tbl))
     \<and> (\<forall>r\<in>set (select_rows instant q tbl). \<forall>r'\<in>set dropped.
           instant (created_at r) \<le> instant (created_at r'))"
proof -
  let ?k = "\<lambda>r. instant (created_at r)"
  let ?s = "sort_key ?k tbl"
  have sel: "select_rows instant q tbl = take n ?s"
    using assms by (simp add: select_rows_def)
  have "sorted (map ?k (take n ?s @ drop n ?s))" by simp
  then have "sorted (map ?k (take n ?s))"
    and "\<forall>r\<in>set (take n ?s). \<forall>r'\<in>set (drop n ?s). ?k r \<le> ?k r'"
    unfolding map_append sorted_append by auto
  moreover have "mset (take n ?s @ drop n ?s) = mset tbl" by simp
  moreover have "length (take n ?s) = min n (length tbl)" by simp
  ultimately show ?thesis
    unfolding sel by blast
qed

lemma instant_of_reading:
  "i \<le> 100 \<Longrightarrow> instant_of (created_at (reading i)) = 5000 * int i"
proof -
  assume "i \<le> 100"
  then have "\<bar>5000 * int i\<bar> \<le> 8640000000000000" by simp
  then have "parseISO (iso_string (5000 * int i)) = Some (5000 * int i)"
    by (rule iso_roundtrip)
  then show ?thesis
    by (simp add: instant_of_def reading_def)
qed

lemma sorted_readings:
  "n \<le> 101 \<Longrightarrow> sorted (map (\<lambda>r. instant_of (created_at r)) (map reading [0..<n]))"
proof -
  assume n: "n \<le> 101"
  have "map (\<lambda>r. instant_of (created_at r)) (map reading [0..<n]) = map (\<lambda>i. 5000 * int i) [0..<n]"
    using n by (simp add: instant_of_reading)
  also have "sorted \<dots>"
    by (simp add: sorted_map sorted_wrt_iff_nth_less)
  finally show ?thesis .
qed

lemma select_rows_ascending_sorted:
  "ascending q \<Longrightarrow> sorted (map (\<lambda>r. instant (created_at r)) tbl) \<Longrightarrow>
   select_rows instant q tbl = (case row_limit q of None \<Rightarrow> tbl | Some n \<Rightarrow> take n tbl)"
  by (simp add: select_rows_def sort_key_id_if_sorted)

lemma reading_inj: "reading i = reading j \<Longrightarrow> i = j"
proof -
  assume "reading i = reading j"
  then have "people_count (reading i) = people_count (reading j)" by simp
  then show ?thesis by (simp add: reading_def)
qed

text \<open>
  C2, at the failing input, a table of 101 readings: the gated component's query, and the
  page's, return the 100 oldest readings, oldest first, and not the newest one; the
  always-on component's query returns all 101.
\<close>

theorem capped_query_drops_newest:
  "select_rows instant_of (fetch_query Gated) (map reading [0..<101]) = map reading [0..<100]
   \<and> reading 100 \<notin> set (select_rows instant_of (fetch_query Gated) (map reading [0..<101]))
   \<and> select_rows instant_of page_query (map reading [0..<101]) = map reading [0..<100]
   \<and> select_rows instant_of (fetch_query AlwaysOn) (map reading [0..<101]) = map reading [0..<101]"
proof -
  have s: "sorted (map (\<lambda>r. instant_of (created_at r)) (map reading [0..<101]))"
    by (rule sorted_readings) simp
  have t: "take 100 (map reading [0..<101]) = map reading [0..<100]"
    by (simp add: take_map)
  have g: "select_rows instant_of (fetch_query Gated) (map reading [0..<101]) = map reading [0..<100]"
    using select_rows_ascending_sorted [OF _ s, of "fetch_query Gated"]
    by (simp add: fetch_query_def t)
  have p: "select_rows instant_of page_query (map reading [0..<101]) = map reading [0..<100]"
    using select_rows_ascending_sorted [OF _ s, of page_query]
    by (simp add: page_query_def t)
  have a: "select_rows instant_of (fetch_query AlwaysOn) (map reading [0..<101]) = map reading [0..<101]"
    using select_rows_ascending_sorted [OF _ s, of "fetch_query AlwaysOn"]
    by (simp add: fetch_query_def)
  have n: "reading 100 \<notin> set (map reading [0..<100])"
    by (auto dest: reading_inj)
  from g p a n show ?thesis by simp
qed

end
